theory Spec2Isabelle
  imports Complex_Main "HOL-Library.Sublist"
begin

section \<open>Trade records\<close>

text \<open>
  One entry of the \<open>dataset\<close> array of a Comtrade response. The script reads four of its
  properties: the partner code and the period (integers), the partner title (a string) and
  the trade value. A trade value is a finite JavaScript number, and the record holds the
  rational number which that double stands for. What the script computes from trade values
  (a sum, a difference, a quotient by 20) is rounded to a double again, and may be infinite
  or \<open>NaN\<close>; see the section on double-precision arithmetic.
\<close>

record TradeRecord =
  ptCode :: int
  ptTitle :: string
  period :: int
  TradeValue :: rat

text \<open>Partner IDs: \<open>const world = 0\<close>, \<open>const canada = 124\<close>.\<close>

definition world :: int where
  "world = 0"

definition canada :: int where
  "canada = 124"

section \<open>Numbers in template strings\<close>

text \<open>
  \<open>`${n}`\<close> for an integer \<open>n\<close> is its decimal numeral, with a leading minus sign
  when it is negative.
\<close>

definition digit_char :: "nat \<Rightarrow> char" where
  "digit_char n = ''0123456789'' ! n"

fun digits :: "nat \<Rightarrow> string" where
  "digits n = (if n < 10 then [digit_char n] else digits (n div 10) @ [digit_char (n mod 10)])"

declare digits.simps [simp del]

definition Number_toString :: "int \<Rightarrow> string" where
  "Number_toString i = (if i < 0 then CHR ''-'' # digits (nat (- i)) else digits (nat i))"

text \<open>The value of a decimal numeral (\<open>+n\<close> for a string of digits).\<close>

definition digit_val :: "char \<Rightarrow> nat" where
  "digit_val c = of_char c - 48"

definition parse_digits :: "string \<Rightarrow> nat" where
  "parse_digits s = foldl (\<lambda>a c. 10 * a + digit_val c) 0 s"

section \<open>Sets\<close>

text \<open>
  A JavaScript \<open>Set\<close> keeps its members in insertion order and holds each of them once:
  a duplicate-free list, extended at the end.
\<close>

definition Set_has :: "'a \<Rightarrow> 'a list \<Rightarrow> bool" where
  "Set_has x s = (x \<in> set s)"

definition Set_add :: "'a \<Rightarrow> 'a list \<Rightarrow> 'a list" where
  "Set_add x s = (if Set_has x s then s else s @ [x])"

definition Set_delete :: "'a \<Rightarrow> 'a list \<Rightarrow> 'a list" where
  "Set_delete x s = filter (\<lambda>y. y \<noteq> x) s"

definition new_Set :: "'a list \<Rightarrow> 'a list" where
  "new_Set xs = foldl (\<lambda>s x. Set_add x s) [] xs"

section \<open>uniqueData\<close>

text \<open>
  \<open>let uid = `${d.ptCode} - ${d.period}`\<close>
\<close>

definition uid :: "TradeRecord \<Rightarrow> string" where
  "uid d = Number_toString (ptCode d) @ '' - '' @ Number_toString (period d)"

text \<open>
  The callback of \<open>data.map\<close> returns the record when its uid is new, and nothing
  (\<open>undefined\<close>, here \<open>None\<close>) otherwise; \<open>dataPoints\<close> is the set it mutates.
\<close>

fun uniqueData_map :: "string list \<Rightarrow> TradeRecord list \<Rightarrow> TradeRecord option list" where
  "uniqueData_map dataPoints [] = []"
| "uniqueData_map dataPoints (d # ds) =
     (if \<not> Set_has (uid d) dataPoints
      then Some d # uniqueData_map (Set_add (uid d) dataPoints) ds
      else None # uniqueData_map dataPoints ds)"

text \<open>\<open>.filter( d => d )\<close> on a list of objects and \<open>undefined\<close>: the objects stay.\<close>

fun filter_defined :: "'a option list \<Rightarrow> 'a list" where
  "filter_defined [] = []"
| "filter_defined (None # xs) = filter_defined xs"
| "filter_defined (Some x # xs) = x # filter_defined xs"

definition uniqueData :: "TradeRecord list \<Rightarrow> TradeRecord list" where
  "uniqueData data = filter_defined (uniqueData_map [] data)"

text \<open>The pair the uid is built from.\<close>

definition pair_key :: "TradeRecord \<Rightarrow> int \<times> int" where
  "pair_key d = (ptCode d, period d)"

section \<open>Dates\<close>

text \<open>
  A \<open>Date\<close> object is its time value: milliseconds since 1 January 1970 UTC. Local time is
  taken to be UTC. \<open>DayFromYear\<close> and \<open>TimeFromYear\<close> are those of ECMAScript;
  \<open>YearFromTime t\<close> is the largest year that starts at or before \<open>t\<close>, found by
  walking down and then up from an approximation of it.
\<close>

datatype Date = Date int

definition msPerDay :: int where
  "msPerDay = 86400000"

definition DayFromYear :: "int \<Rightarrow> int" where
  "DayFromYear y = 365 * (y - 1970) + (y - 1969) div 4 - (y - 1901) div 100 + (y - 1601) div 400"

definition TimeFromYear :: "int \<Rightarrow> int" where
  "TimeFromYear y = msPerDay * DayFromYear y"

lemma DayFromYear_step: "DayFromYear y + 364 \<le> DayFromYear (y + 1)"
proof -
  have lin: "a \<le> a' \<Longrightarrow> b' \<le> b + 1 \<Longrightarrow> c \<le> c' \<Longrightarrow>
      365 * (y - 1970) + a - b + c + 364 \<le> 365 * (y + 1 - 1970) + a' - b' + c'"
    for a a' b b' c c' :: int
    by simp
  have a: "(y - 1969) div 4 \<le> (y + 1 - 1969) div 4"
    by (rule zdiv_mono1) simp_all
  have "(y + 1 - 1901) div 100 \<le> (y - 1901 + 1 * 100) div 100"
    by (rule zdiv_mono1) simp_all
  then have b: "(y + 1 - 1901) div 100 \<le> (y - 1901) div 100 + 1"
    by simp
  have c: "(y - 1601) div 400 \<le> (y + 1 - 1601) div 400"
    by (rule zdiv_mono1) simp_all
  show ?thesis
    unfolding DayFromYear_def by (rule lin [OF a b c])
qed

lemma DayFromYear_less: "y < y' \<Longrightarrow> DayFromYear y < DayFromYear y'"
proof (induction y' rule: int_gr_induct)
  case base
  then show ?case using DayFromYear_step [of y] by simp
next
  case (step i)
  then show ?case using DayFromYear_step [of i] by simp
qed

lemma TimeFromYear_less: "y < y' \<Longrightarrow> TimeFromYear y < TimeFromYear y'"
  by (simp add: TimeFromYear_def msPerDay_def DayFromYear_less)

function year_down :: "int \<Rightarrow> int \<Rightarrow> int" where
  "year_down t y = (if TimeFromYear y \<le> t then y else year_down t (y - 1))"
  by pat_completeness auto
termination
proof (relation "measure (\<lambda>(t, y). nat (TimeFromYear y - t))")
  show "wf (measure (\<lambda>(t, y). nat (TimeFromYear y - t)))" by simp
next
  fix t y :: int
  assume "\<not> TimeFromYear y \<le> t"
  then show "((t, y - 1), (t, y)) \<in> measure (\<lambda>(t, y). nat (TimeFromYear y - t))"
    using TimeFromYear_less [of "y - 1" y] by simp
qed

function year_up :: "int \<Rightarrow> int \<Rightarrow> int" where
  "year_up t y = (if TimeFromYear (y + 1) \<le> t then year_up t (y + 1) else y)"
  by pat_completeness auto
termination
proof (relation "measure (\<lambda>(t, y). nat (t + 1 - TimeFromYear (y + 1)))")
  show "wf (measure (\<lambda>(t, y). nat (t + 1 - TimeFromYear (y + 1))))" by simp
next
  fix t y :: int
  assume "TimeFromYear (y + 1) \<le> t"
  then show
    "((t, y + 1), (t, y)) \<in> measure (\<lambda>(t, y). nat (t + 1 - TimeFromYear (y + 1)))"
    using TimeFromYear_less [of "y + 1" "y + 1 + 1"] by simp
qed

declare year_down.simps [simp del] year_up.simps [simp del]

definition YearFromTime :: "int \<Rightarrow> int" where
  "YearFromTime t = year_up t (year_down t (1970 + (t div msPerDay) div 366))"

section \<open>timeParse('%Y') and timeFormat('%Y')\<close>

text \<open>
  \<open>const period2date = timeParse('%Y')\<close> and \<open>const date2period = timeFormat('%Y')\<close>,
  as d3-time-format defines them.

  For \<open>%Y\<close> the parser matches \<open>/^\s*\d+/\<close> against the next four characters
  (\<open>parseFullYear\<close>: the year read and the number of characters used, or nothing), and
  the parse returns \<open>null\<close> (here \<open>None\<close>) unless it has used the whole string.
  The date is then \<open>new Date(y, 0, 1)\<close>, the start of the year \<open>y\<close>
  (for \<open>y < 100\<close> too: d3 sets the full year itself).

  For \<open>%Y\<close> the formatter writes \<open>getFullYear() % 10000\<close>, padded with zeros to
  four characters; an argument that is no \<open>Date\<close> is first made one by
  \<open>new Date(+date)\<close>, so \<open>null\<close> is formatted as the date of time value 0.
\<close>

definition is_space :: "char \<Rightarrow> bool" where
  "is_space c = (c \<in> set [CHR '' '', CHR 0x09, CHR 0x0A, CHR 0x0B, CHR 0x0C, CHR 0x0D])"

definition is_digit :: "char \<Rightarrow> bool" where
  "is_digit c = (c \<in> set ''0123456789'')"

definition parseFullYear :: "string \<Rightarrow> (int \<times> nat) option" where
  "parseFullYear s =
     (let s4 = take 4 s;
          ws = takeWhile is_space s4;
          ds = takeWhile is_digit (dropWhile is_space s4)
      in if ds = [] then None else Some (int (parse_digits ds), length ws + length ds))"

definition year_start :: "int \<Rightarrow> Date" where
  "year_start y = Date (TimeFromYear y)"

definition period2date :: "string \<Rightarrow> Date option" where
  "period2date s =
     (case parseFullYear s of
        None \<Rightarrow> None
      | Some (y, j) \<Rightarrow> if j \<noteq> length s then None else Some (year_start y))"

definition js_rem :: "int \<Rightarrow> int \<Rightarrow> int" where
  "js_rem a b = sgn a * (\<bar>a\<bar> mod \<bar>b\<bar>)"

definition pad :: "int \<Rightarrow> nat \<Rightarrow> string" where
  "pad v width =
     (let sign = (if v < 0 then ''-'' else '''');
          s = digits (nat \<bar>v\<bar>)
      in sign @ (if length s < width then replicate (width - length s) CHR ''0'' @ s else s))"

fun formatFullYear :: "Date \<Rightarrow> string" where
  "formatFullYear (Date t) = pad (js_rem (YearFromTime t) 10000) 4"

definition date2period :: "Date option \<Rightarrow> string" where
  "date2period date = (case date of None \<Rightarrow> formatFullYear (Date 0) | Some d \<Rightarrow> formatFullYear d)"

text \<open>
  A date (or \<open>null\<close>) as a number, as in \<open>a - b\<close> and \<open>Math.min(...periods)\<close>: the time
  value, and 0 for \<open>null\<close>.
\<close>

fun ToNumber :: "Date option \<Rightarrow> int" where
  "ToNumber None = 0"
| "ToNumber (Some (Date t)) = t"

text \<open>
  \<open>getPeriods\<close>: the distinct periods, each parsed, sorted by \<open>(a,b) => a - b\<close>
  (\<open>Array.prototype.sort\<close> is stable, as \<open>sort_key\<close> is).
\<close>

definition getPeriods :: "TradeRecord list \<Rightarrow> Date option list" where
  "getPeriods data =
     sort_key ToNumber
       (map (\<lambda>period. period2date (Number_toString period)) (new_Set (map period data)))"

section \<open>Numbers with infinities\<close>

datatype 'a jsnum = Num 'a | PosInfinity | NegInfinity | NaN

text \<open>\<open>Math.max(...xs)\<close> and \<open>Math.min(...xs)\<close> on finite numbers: \<open>-Infinity\<close> and
  \<open>Infinity\<close> when there is no argument.\<close>

fun Math_max :: "'a::linorder list \<Rightarrow> 'a jsnum" where
  "Math_max [] = NegInfinity"
| "Math_max (x # xs) = (case Math_max xs of Num m \<Rightarrow> Num (max x m) | _ \<Rightarrow> Num x)"

fun Math_min :: "'a::linorder list \<Rightarrow> 'a jsnum" where
  "Math_min [] = PosInfinity"
| "Math_min (x # xs) = (case Math_min xs of Num m \<Rightarrow> Num (min x m) | _ \<Rightarrow> Num x)"

text \<open>The time value of \<open>new Date(v)\<close>: \<open>v\<close> itself when it is a time within the range
  of dates, \<open>NaN\<close> (an invalid date) otherwise.\<close>

fun new_Date :: "int jsnum \<Rightarrow> int jsnum" where
  "new_Date (Num t) = (if \<bar>t\<bar> \<le> 8640000000000000 then Num t else NaN)"
| "new_Date _ = NaN"

section \<open>Double-precision arithmetic\<close>

text \<open>
  A JavaScript number is a binary64 value: a rational of the form \<open>m * 2^q\<close> with
  \<open>\<bar>m\<bar> < 2^53\<close> and \<open>-1074 \<le> q \<le> 971\<close>, an infinity, or \<open>NaN\<close>. The two zeros are taken
  as one: the script never divides by a trade value or prints its sign.
\<close>

type_synonym number = "rat jsnum"

text \<open>\<open>pow2 e\<close> is \<open>2^e\<close> for an integer exponent.\<close>

definition pow2 :: "int \<Rightarrow> rat" where
  "pow2 e = (if 0 \<le> e then 2 ^ nat e else 1 / 2 ^ nat (- e))"

lemma floor_half_less: "1 \<le> x \<Longrightarrow> \<lfloor>x / 2\<rfloor> < \<lfloor>x\<rfloor>" for x :: rat
proof -
  assume "1 \<le> x"
  then have "1 \<le> \<lfloor>x\<rfloor>" by simp
  have "x < of_int \<lfloor>x\<rfloor> + 1" by linarith
  with \<open>1 \<le> \<lfloor>x\<rfloor>\<close> have "x / 2 < of_int \<lfloor>x\<rfloor>" by linarith
  then show ?thesis by (simp add: floor_less_iff)
qed

text \<open>
  The binary exponent of a positive rational: \<open>ilog2 x\<close> is the \<open>e\<close> with
  \<open>2^e \<le> x < 2^(e+1)\<close>, found by halving above 2 and by doubling below 1.
\<close>

function log2_up :: "rat \<Rightarrow> int" where
  "log2_up x = (if 2 \<le> x then log2_up (x / 2) + 1 else 0)"
  by pat_completeness auto
termination
  by (relation "measure (\<lambda>x. nat \<lfloor>x\<rfloor>)") (auto simp: floor_half_less)

function log2_down :: "rat \<Rightarrow> int" where
  "log2_down x = (if 0 < x \<and> x < 1 then log2_down (2 * x) - 1 else 0)"
  by pat_completeness auto
termination
proof (relation "measure (\<lambda>x. nat \<lfloor>1 / x\<rfloor>)")
  show "wf (measure (\<lambda>x :: rat. nat \<lfloor>1 / x\<rfloor>))" by simp
next
  fix x :: rat
  assume "0 < x \<and> x < 1"
  then have "1 \<le> 1 / x" by simp
  have eq: "1 / (2 * x) = (1 / x) / 2" by simp
  have less: "\<lfloor>1 / (2 * x)\<rfloor> < \<lfloor>1 / x\<rfloor>"
    unfolding eq using \<open>1 \<le> 1 / x\<close> by (rule floor_half_less)
  have "0 < \<lfloor>1 / x\<rfloor>" using \<open>1 \<le> 1 / x\<close> by simp
  with less show "(2 * x, x) \<in> measure (\<lambda>x. nat \<lfloor>1 / x\<rfloor>)"
    unfolding measure_def inv_image_def by simp
qed

declare log2_up.simps [simp del] log2_down.simps [simp del]

definition ilog2 :: "rat \<Rightarrow> int" where
  "ilog2 x = (if 1 \<le> x then log2_up x else log2_down x)"

text \<open>The nearest integer, the even one of two that are equally near.\<close>

definition round_half_even :: "rat \<Rightarrow> int" where
  "round_half_even y =
     (let f = \<lfloor>y\<rfloor>; d = y - of_int f
      in if d < 1 / 2 then f else if 1 / 2 < d then f + 1 else if even f then f else f + 1)"

text \<open>
  The double nearest to a rational (round to nearest, ties to even), as every arithmetic
  operation of IEEE 754 returns it for its exact result. The spacing of the doubles around
  \<open>x\<close> is \<open>2^(e-52)\<close> for the exponent \<open>e\<close> of \<open>x\<close>, and \<open>2^-1074\<close> below \<open>2^-1022\<close> (the
  subnormal numbers). A result of magnitude \<open>2^1024\<close> or more is an infinity.
\<close>

definition round_double :: "rat \<Rightarrow> number" where
  "round_double x =
     (if x = 0 then Num 0
      else
        (let e = ilog2 \<bar>x\<bar>;
             q = max e (- 1022) - 52;
             r = of_int (round_half_even (x / pow2 q)) * pow2 q
         in if 2 ^ 1024 \<le> r then PosInfinity
            else if r \<le> - (2 ^ 1024) then NegInfinity
            else Num r))"


text \<open>
  \<open>a + b\<close>, \<open>- a\<close>, \<open>a - b\<close>, \<open>a > b\<close> and \<open>a >= b\<close> on numbers. A comparison with \<open>NaN\<close> is
  false.
\<close>

fun js_add :: "number \<Rightarrow> number \<Rightarrow> number" where
  "js_add (Num a) (Num b) = round_double (a + b)"
| "js_add NaN _ = NaN"
| "js_add _ NaN = NaN"
| "js_add PosInfinity NegInfinity = NaN"
| "js_add NegInfinity PosInfinity = NaN"
| "js_add PosInfinity _ = PosInfinity"
| "js_add _ PosInfinity = PosInfinity"
| "js_add NegInfinity _ = NegInfinity"
| "js_add _ NegInfinity = NegInfinity"

fun js_neg :: "number \<Rightarrow> number" where
  "js_neg (Num a) = Num (- a)"
| "js_neg PosInfinity = NegInfinity"
| "js_neg NegInfinity = PosInfinity"
| "js_neg NaN = NaN"

definition js_sub :: "number \<Rightarrow> number \<Rightarrow> number" where
  "js_sub a b = js_add a (js_neg b)"

fun js_gt :: "number \<Rightarrow> number \<Rightarrow> bool" where
  "js_gt (Num a) (Num b) = (a > b)"
| "js_gt NaN _ = False"
| "js_gt _ NaN = False"
| "js_gt NegInfinity _ = False"
| "js_gt _ PosInfinity = False"
| "js_gt PosInfinity _ = True"
| "js_gt _ NegInfinity = True"

fun js_ge :: "number \<Rightarrow> number \<Rightarrow> bool" where
  "js_ge (Num a) (Num b) = (a \<ge> b)"
| "js_ge NaN _ = False"
| "js_ge _ NaN = False"
| "js_ge PosInfinity _ = True"
| "js_ge _ NegInfinity = True"
| "js_ge NegInfinity _ = False"
| "js_ge _ PosInfinity = False"


section \<open>Scales\<close>

text \<open>
  \<open>scaleLinear().domain(d).range(r)\<close>: the scale is given by its domain and its range.
  The domain of the time scale is kept as the time values of its two dates.
\<close>

record 'a scale =
  scale_domain :: "'a jsnum list"
  scale_range :: "int list"

definition width :: int where
  "width = 600"

definition height :: int where
  "height = 250"

record margins =
  top :: int
  right :: int
  bottom :: int
  left :: int

definition margin :: margins where
  "margin = \<lparr>top = 5, right = 5, bottom = 20, left = 40\<rparr>"

section \<open>updateChart\<close>

text \<open>
  What ends a run early: a \<open>TypeError\<close> (reading \<open>TradeValue\<close> of \<open>undefined\<close>) or a
  request that fails.
\<close>

datatype error = TypeError | FetchError

text \<open>
  The object \<open>trade\<close> of one period is a map from property names to values: the date
  under \<open>period\<close>, numbers under \<open>Other\<close> and under the partner titles.
  \<open>Warn\<close> is a call of \<open>console.warn\<close> with its three arguments.
\<close>

datatype jsval = VDate "Date option" | VNum number

type_synonym trade = "string \<Rightarrow> jsval option"

datatype console = Warn string "Date option" number

datatype stackOffset =
  stackOffsetNone | stackOffsetExpand | stackOffsetDiverging | stackOffsetSilhouette
  | stackOffsetWiggle

datatype stackOrder =
  stackOrderNone | stackOrderAppearance | stackOrderAscending | stackOrderDescending
  | stackOrderInsideOut | stackOrderReverse

text \<open>
  What \<open>updateChart\<close> puts on the page: the bands of \<open>stack().keys(...).offset(...)
  .order(...)(allTrade)\<close>, drawn with the scales \<open>X\<close> and \<open>Y\<close>. The join by key
  replaces the bands of an earlier call.
\<close>

record chart =
  stack_keys :: "string list"
  stack_offset :: stackOffset
  stack_order :: stackOrder
  stack_data :: "trade list"
  chart_X :: "int scale"
  chart_Y :: "rat scale"

text \<open>
  The callback of \<open>periods.map\<close>, in the order of the source: the records of the
  period, the world trade value (a TypeError when \<open>find\<close> returns \<open>undefined\<close>), the
  sum of the other records (\<open>reduce\<close> adds them in doubles, from 0, in the order of the
  records), the warning, and the object \<open>trade\<close> with the difference
  \<open>worldTrade - partnerTrade\<close> of doubles under \<open>Other\<close> and one assignment
  \<open>trade[partner] = record ? record.TradeValue : 0\<close> for each partner of the set.
\<close>

definition periodData :: "TradeRecord list \<Rightarrow> Date option \<Rightarrow> TradeRecord list" where
  "periodData data p = filter (\<lambda>d. Number_toString (period d) = date2period p) data"

definition partnerTrade :: "TradeRecord list \<Rightarrow> number" where
  "partnerTrade pd =
     foldl (\<lambda>a b. js_add a (Num (TradeValue b))) (Num 0) (filter (\<lambda>d. ptCode d \<noteq> world) pd)"

definition assign_partner :: "TradeRecord list \<Rightarrow> trade \<Rightarrow> string \<Rightarrow> trade" where
  "assign_partner pd trade partner =
     trade(partner \<mapsto>
       VNum (case find (\<lambda>d. ptTitle d = partner) pd of
               Some record \<Rightarrow> Num (TradeValue record)
             | None \<Rightarrow> Num 0))"

definition periodTrade ::
    "string list \<Rightarrow> TradeRecord list \<Rightarrow> Date option \<Rightarrow> console list \<times> (error + trade)" where
  "periodTrade partners data p =
     (let pd = periodData data p in
      case find (\<lambda>d. ptCode d = world) pd of
        None \<Rightarrow> ([], Inl TypeError)
      | Some w \<Rightarrow>
          (let worldTrade = Num (TradeValue w);
               warnings = (if js_gt (partnerTrade pd) worldTrade
                           then [Warn ''world trade too small?'' p (partnerTrade pd)] else []);
               trade = [''period'' \<mapsto> VDate p,
                        ''Other'' \<mapsto> VNum (js_sub worldTrade (partnerTrade pd))]
           in (warnings, Inr (foldl (assign_partner pd) trade partners))))"

text \<open>
  \<open>periods.map\<close> with a callback that may throw: the first error ends it, after the
  warnings of the periods before.
\<close>

fun map_periods ::
    "(Date option \<Rightarrow> console list \<times> (error + trade)) \<Rightarrow> Date option list
      \<Rightarrow> console list \<times> (error + trade list)" where
  "map_periods f [] = ([], Inr [])"
| "map_periods f (p # ps) =
     (case f p of
        (w, Inl e) \<Rightarrow> (w, Inl e)
      | (w, Inr t) \<Rightarrow>
          (case map_periods f ps of
             (ws, Inl e) \<Rightarrow> (w @ ws, Inl e)
           | (ws, Inr ts) \<Rightarrow> (w @ ws, Inr (t # ts))))"

definition updateChart ::
    "TradeRecord list \<Rightarrow> int scale \<Rightarrow> rat scale \<Rightarrow> console list \<times> (error + chart)" where
  "updateChart data X Y =
     (let partners = Set_delete ''World'' (new_Set (map ptTitle data));
          periods = getPeriods data
      in case map_periods (periodTrade partners data) periods of
           (ws, Inl e) \<Rightarrow> (ws, Inl e)
         | (ws, Inr allTrade) \<Rightarrow>
             (ws, Inr \<lparr>stack_keys = Set_add ''Other'' partners,
                       stack_offset = stackOffsetNone,
                       stack_order = stackOrderNone,
                       stack_data = allTrade,
                       chart_X = X, chart_Y = Y\<rparr>))"

section \<open>getAllDataFor\<close>

text \<open>
  \<open>partners\<close> and \<open>periods\<close> are each the string \<open>'all'\<close> or an array, which
  \<open>join(',')\<close> turns into a string. The service is a function \<open>net\<close> from the number
  of the request (counted from 0) and its parameters to the \<open>dataset\<close> of the response,
  or to nothing when the request fails. A \<open>page\<close> holds what a run leaves behind: the
  requests sent, the console, the charts drawn (the last one is on the page) and whether the
  loading text is shown.
\<close>

datatype 'a arg = Str string | Array "'a list"

fun join :: "string list \<Rightarrow> string" where
  "join [] = []"
| "join [x] = x"
| "join (x # y # ys) = x @ '','' @ join (y # ys)"

type_synonym params = "(string \<times> string) list"

type_synonym net = "nat \<Rightarrow> params \<Rightarrow> TradeRecord list option"

record page =
  requests :: "params list"
  console_log :: "console list"
  drawn :: "chart list"
  loading :: bool

definition URLSearchParams :: "string \<Rightarrow> int arg \<Rightarrow> string arg \<Rightarrow> params" where
  "URLSearchParams HScode partners periods =
     [(''r'', ''392''),
      (''rg'', ''1''),
      (''p'', case partners of Str s \<Rightarrow> s | Array xs \<Rightarrow> join (map Number_toString xs)),
      (''freq'', ''A''),
      (''ps'', case periods of Str s \<Rightarrow> s | Array xs \<Rightarrow> join xs),
      (''px'', ''HS''), (''cc'', HScode)]"

definition getAllDataFor ::
    "net \<Rightarrow> string \<Rightarrow> int arg \<Rightarrow> string arg \<Rightarrow> page \<Rightarrow> (error + TradeRecord list) \<times> page" where
  "getAllDataFor net HScode partners periods pg =
     (let params = URLSearchParams HScode partners periods;
          pg' = pg\<lparr>requests := requests pg @ [params]\<rparr>
      in case net (length (requests pg)) params of
           None \<Rightarrow> (Inl FetchError, pg')
         | Some dataset \<Rightarrow> (Inr dataset, pg'))"

section \<open>addComtradeData\<close>

text \<open>\<open>xs.slice(start, end)\<close>; a negative index counts from the end.\<close>

definition slice :: "int \<Rightarrow> int option \<Rightarrow> 'a list \<Rightarrow> 'a list" where
  "slice start end xs =
     (let len = int (length xs);
          k = (if start < 0 then max (len + start) 0 else min start len);
          final = (case end of
                     None \<Rightarrow> len
                   | Some e \<Rightarrow> if e < 0 then max (len + e) 0 else min e len)
      in take (nat (final - k)) (drop (nat k) xs))"

text \<open>\<open>.filter( d => d )\<close> on a list of numbers and \<open>undefined\<close>: the numbers other than
  zero stay.\<close>

fun filter_truthy :: "int option list \<Rightarrow> int list" where
  "filter_truthy [] = []"
| "filter_truthy (None # xs) = filter_truthy xs"
| "filter_truthy (Some n # xs) = (if n \<noteq> 0 then n # filter_truthy xs else filter_truthy xs)"

text \<open>
  The ranking pass: \<open>worldTrade\<close> and \<open>unqueriedPartners\<close> from the response for the last
  period. The quotient \<open>worldTrade/20\<close> of two finite doubles is the exact quotient rounded
  to a double, and \<open>>=\<close> compares that double with the trade value.
\<close>

definition unqueriedPartners :: "TradeRecord list \<Rightarrow> error + int list" where
  "unqueriedPartners newData =
     (case find (\<lambda>d. ptCode d = world) newData of
        None \<Rightarrow> Inl TypeError
      | Some w \<Rightarrow>
          (let worldTrade = TradeValue w
           in Inr (filter_truthy
                (map (\<lambda>d. if js_ge (Num (TradeValue d)) (round_double (worldTrade / 20))
                              \<and> ptCode d \<noteq> world
                           then Some (ptCode d) else None) newData))))"

text \<open>
  A call \<open>updateChart(svg, ...)\<close> on the page: its warnings reach the console, and its
  chart the page unless it threw.
\<close>

definition draw :: "console list \<times> (error + chart) \<Rightarrow> page \<Rightarrow> (error + unit) \<times> page" where
  "draw r pg =
     (case r of
        (ws, Inl e) \<Rightarrow> (Inl e, pg\<lparr>console_log := console_log pg @ ws\<rparr>)
      | (ws, Inr ch) \<Rightarrow>
          (Inr (), pg\<lparr>console_log := console_log pg @ ws, drawn := drawn pg @ [ch]\<rparr>))"

lemma slice_0_minus: "0 < n \<Longrightarrow> slice 0 (Some (- int n)) xs = take (length xs - n) xs"
  by (simp add: slice_def Let_def max_def nat_diff_distrib')

lemma slice_minus: "0 < n \<Longrightarrow> slice (- int n) None xs = drop (length xs - n) xs"
  by (simp add: slice_def Let_def max_def nat_diff_distrib')

lemma slice_pop_shorter: "xs \<noteq> [] \<Longrightarrow> length (slice 0 (Some (- 5)) xs) < length xs"
  using slice_0_minus [of 5 xs] by (cases xs) simp_all

text \<open>
  The loop \<open>while(unqueriedPartners.length > 0)\<close>, with the final \<open>sourceData\<close> as its
  result. The queue gets shorter in every iteration.
\<close>

function backfill ::
    "net \<Rightarrow> string \<Rightarrow> int scale \<Rightarrow> rat scale \<Rightarrow> int list \<Rightarrow> TradeRecord list \<Rightarrow> page
      \<Rightarrow> (error + TradeRecord list) \<times> page" where
  "backfill net HScode X Y unqueried sourceData pg =
     (if length unqueried > 0 then
        (let queryPartners = slice (- 5) None unqueried;
             unqueried' = slice 0 (Some (- 5)) unqueried
         in case getAllDataFor net HScode (Array queryPartners) (Str ''all'') pg of
              (Inl e, pg1) \<Rightarrow> (Inl e, pg1)
            | (Inr newData, pg1) \<Rightarrow>
                (let sourceData' = uniqueData (sourceData @ newData)
                 in case draw (updateChart sourceData' X Y) pg1 of
                      (Inl e, pg2) \<Rightarrow> (Inl e, pg2)
                    | (Inr _, pg2) \<Rightarrow> backfill net HScode X Y unqueried' sourceData' pg2))
      else (Inr sourceData, pg))"
  by pat_completeness auto
termination
  by (relation "measure (\<lambda>(net, HScode, X, Y, unqueried, sourceData, pg). length unqueried)")
    (auto simp: slice_pop_shorter)

declare backfill.simps [simp del]

text \<open>
  The values that \<open>queryPartners\<close> takes, in order, when the loop runs to its end: the
  loop of \<open>addComtradeData\<close> without its requests and redraws.
\<close>

function batches :: "'a list \<Rightarrow> 'a list list" where
  "batches unqueried =
     (if length unqueried > 0
      then slice (- 5) None unqueried # batches (slice 0 (Some (- 5)) unqueried)
      else [])"
  by pat_completeness auto
termination
  by (relation "measure length") (auto simp: slice_pop_shorter)

declare batches.simps [simp del]

text \<open>The scales, and the whole of \<open>addComtradeData\<close>.\<close>

definition dateRange :: "Date option list \<Rightarrow> int jsnum list" where
  "dateRange periods =
     [new_Date (Math_min (map ToNumber periods)), new_Date (Math_max (map ToNumber periods))]"

definition X_scale :: "Date option list \<Rightarrow> int scale" where
  "X_scale periods =
     \<lparr>scale_domain = dateRange periods,
      scale_range = [0 + left margin, width - right margin]\<rparr>"

definition maxTradeValue :: "TradeRecord list \<Rightarrow> rat jsnum" where
  "maxTradeValue sourceData =
     Math_max (map TradeValue (filter (\<lambda>d. ptCode d = world) sourceData))"

definition Y_scale :: "TradeRecord list \<Rightarrow> rat scale" where
  "Y_scale sourceData =
     \<lparr>scale_domain = [Num 0, maxTradeValue sourceData],
      scale_range = [height - bottom margin, 0 + top margin]\<rparr>"

definition addComtradeData :: "net \<Rightarrow> string \<Rightarrow> (error + unit) \<times> page" where
  "addComtradeData net HScode =
     (let pg0 = \<lparr>requests = [], console_log = [], drawn = [], loading = True\<rparr>;
          tradePartners = [world, canada]
      in case getAllDataFor net HScode (Array tradePartners) (Str ''all'') pg0 of
           (Inl e, pg1) \<Rightarrow> (Inl e, pg1)
         | (Inr response, pg1) \<Rightarrow>
             (let sourceData = uniqueData response;
                  periods = getPeriods sourceData;
                  X = X_scale periods;
                  Y = Y_scale sourceData
              in case draw (updateChart sourceData X Y) pg1 of
                   (Inl e, pg2) \<Rightarrow> (Inl e, pg2)
                 | (Inr _, pg2) \<Rightarrow>
                     (case getAllDataFor net HScode (Str ''all'')
                             (Array (slice (- 1) None (map date2period periods))) pg2 of
                        (Inl e, pg3) \<Rightarrow> (Inl e, pg3)
                      | (Inr newData, pg3) \<Rightarrow>
                          (case unqueriedPartners newData of
                             Inl e \<Rightarrow> (Inl e, pg3)
                           | Inr unqueried \<Rightarrow>
                               (case backfill net HScode X Y unqueried sourceData pg3 of
                                  (Inl e, pg4) \<Rightarrow> (Inl e, pg4)
                                | (Inr _, pg4) \<Rightarrow> (Inr (), pg4\<lparr>loading := False\<rparr>))))))"

section \<open>Sample data\<close>

text \<open>A response in which Canada's 2020 record comes twice, with different values.\<close>

definition sample_dup :: "TradeRecord list" where
  "sample_dup =
     [\<lparr>ptCode = 0, ptTitle = ''World'', period = 2020, TradeValue = 100\<rparr>,
      \<lparr>ptCode = 124, ptTitle = ''Canada'', period = 2020, TradeValue = 30\<rparr>,
      \<lparr>ptCode = 124, ptTitle = ''Canada'', period = 2020, TradeValue = 31\<rparr>,
      \<lparr>ptCode = 0, ptTitle = ''World'', period = 2019, TradeValue = 90\<rparr>]"

text \<open>A last-period response: Canada at exactly 5% of the world trade, China just below,
  with 9.99 as the double which \<open>JSON.parse\<close> reads from that numeral.\<close>

definition sample_latest :: "TradeRecord list" where
  "sample_latest =
     [\<lparr>ptCode = 0, ptTitle = ''World'', period = 2020, TradeValue = 200\<rparr>,
      \<lparr>ptCode = 124, ptTitle = ''Canada'', period = 2020, TradeValue = 10\<rparr>,
      \<lparr>ptCode = 156, ptTitle = ''China'', period = 2020,
        TradeValue = 5623870034678907 / 562949953421312\<rparr>]"

text \<open>Data with a record for 2019 but no world record for that year.\<close>

definition sample_no_world :: "TradeRecord list" where
  "sample_no_world =
     [\<lparr>ptCode = 0, ptTitle = ''World'', period = 2020, TradeValue = 100\<rparr>,
      \<lparr>ptCode = 124, ptTitle = ''Canada'', period = 2020, TradeValue = 30\<rparr>,
      \<lparr>ptCode = 124, ptTitle = ''Canada'', period = 2019, TradeValue = 25\<rparr>]"

text \<open>Periods as Comtrade writes months (January and February 2020).\<close>

definition sample_months :: "TradeRecord list" where
  "sample_months =
     [\<lparr>ptCode = 0, ptTitle = ''World'', period = 202001, TradeValue = 100\<rparr>,
      \<lparr>ptCode = 0, ptTitle = ''World'', period = 202002, TradeValue = 90\<rparr>]"

text \<open>World trade 100, two partners at 30 and 20.\<close>

definition sample_residual :: "TradeRecord list" where
  "sample_residual =
     [\<lparr>ptCode = 0, ptTitle = ''World'', period = 2020, TradeValue = 100\<rparr>,
      \<lparr>ptCode = 124, ptTitle = ''Canada'', period = 2020, TradeValue = 30\<rparr>,
      \<lparr>ptCode = 156, ptTitle = ''China'', period = 2020, TradeValue = 20\<rparr>]"

text \<open>Two partner codes under one title.\<close>

definition sample_shared_title :: "TradeRecord list" where
  "sample_shared_title =
     [\<lparr>ptCode = 0, ptTitle = ''World'', period = 2020, TradeValue = 100\<rparr>,
      \<lparr>ptCode = 490, ptTitle = ''Asia'', period = 2020, TradeValue = 30\<rparr>,
      \<lparr>ptCode = 636, ptTitle = ''Asia'', period = 2020, TradeValue = 20\<rparr>]"

text \<open>A partner titled \<open>Other\<close>.\<close>

definition sample_other_title :: "TradeRecord list" where
  "sample_other_title =
     [\<lparr>ptCode = 0, ptTitle = ''World'', period = 2020, TradeValue = 100\<rparr>,
      \<lparr>ptCode = 899, ptTitle = ''Other'', period = 2020, TradeValue = 30\<rparr>,
      \<lparr>ptCode = 124, ptTitle = ''Canada'', period = 2020, TradeValue = 20\<rparr>]"


text \<open>
  The same rows in decimals: world trade 199.8 and a partner with 9.99, as the doubles which
  \<open>JSON.parse\<close> reads from these numerals.
\<close>

definition sample_decimal :: "TradeRecord list" where
  "sample_decimal =
     [\<lparr>ptCode = 0, ptTitle = ''World'', period = 2020,
        TradeValue = 3514918771674317 / 17592186044416\<rparr>,
      \<lparr>ptCode = 156, ptTitle = ''China'', period = 2020,
        TradeValue = 5623870034678907 / 562949953421312\<rparr>]"





text \<open>A run: the first response, the response of the ranking pass, and the response for the
  batch of Canada and China, which brings a new year and a larger world trade value.\<close>

definition sample_first :: "TradeRecord list" where
  "sample_first =
     [\<lparr>ptCode = 0, ptTitle = ''World'', period = 2019, TradeValue = 90\<rparr>,
      \<lparr>ptCode = 0, ptTitle = ''World'', period = 2020, TradeValue = 100\<rparr>,
      \<lparr>ptCode = 124, ptTitle = ''Canada'', period = 2019, TradeValue = 25\<rparr>,
      \<lparr>ptCode = 124, ptTitle = ''Canada'', period = 2020, TradeValue = 30\<rparr>]"

definition sample_ranking :: "TradeRecord list" where
  "sample_ranking =
     [\<lparr>ptCode = 0, ptTitle = ''World'', period = 2020, TradeValue = 100\<rparr>,
      \<lparr>ptCode = 124, ptTitle = ''Canada'', period = 2020, TradeValue = 30\<rparr>,
      \<lparr>ptCode = 156, ptTitle = ''China'', period = 2020, TradeValue = 20\<rparr>,
      \<lparr>ptCode = 604, ptTitle = ''Peru'', period = 2020, TradeValue = 1\<rparr>]"

definition sample_batch :: "TradeRecord list" where
  "sample_batch =
     [\<lparr>ptCode = 156, ptTitle = ''China'', period = 2019, TradeValue = 15\<rparr>,
      \<lparr>ptCode = 156, ptTitle = ''China'', period = 2020, TradeValue = 20\<rparr>,
      \<lparr>ptCode = 0, ptTitle = ''World'', period = 2021, TradeValue = 500\<rparr>,
      \<lparr>ptCode = 156, ptTitle = ''China'', period = 2021, TradeValue = 100\<rparr>]"

text \<open>A service that answers the first three requests and fails afterwards.\<close>

definition sample_net :: net where
  "sample_net n ps =
     (if n = 0 then Some sample_first
      else if n = 1 then Some sample_ranking
      else if n = 2 then Some sample_batch
      else None)"

text \<open>A service whose first response lacks the world record of 2019, and one whose response
  to the ranking request holds no world record.\<close>

definition sample_net_no_world :: net where
  "sample_net_no_world n ps = (if n = 0 then Some sample_no_world else None)"

definition sample_net_ranking :: net where
  "sample_net_ranking n ps =
     (if n = 0 then Some sample_residual
      else if n = 1
        then Some [\<lparr>ptCode = 124, ptTitle = ''Canada'', period = 2020, TradeValue = 30\<rparr>]
      else None)"

section \<open>Decimal numerals are injective\<close>

lemma lt_10_cases: "(n::nat) < 10 \<Longrightarrow> n \<in> {0, 1, 2, 3, 4, 5, 6, 7, 8, 9}"
  by (simp only: insert_iff empty_iff) arith

lemma digit_val_digit_char: "n < 10 \<Longrightarrow> digit_val (digit_char n) = n"
  using lt_10_cases [of n] by (auto simp: digit_val_def digit_char_def)

lemma digit_char_in: "n < 10 \<Longrightarrow> digit_char n \<in> set ''0123456789''"
  using lt_10_cases [of n] by (auto simp: digit_char_def)

lemma parse_digits_snoc: "parse_digits (s @ [c]) = 10 * parse_digits s + digit_val c"
  by (simp add: parse_digits_def)

lemma parse_digits_digits: "parse_digits (digits n) = n"
proof (induction n rule: digits.induct)
  case (1 n)
  show ?case
  proof (cases "n < 10")
    case True
    then show ?thesis
      by (simp add: digits.simps [of n] parse_digits_def digit_val_digit_char)
  next
    case False
    then have "parse_digits (digits n) = 10 * (n div 10) + n mod 10"
      using 1 by (simp add: digits.simps [of n] parse_digits_snoc digit_val_digit_char)
    then show ?thesis by simp
  qed
qed

lemma digits_inj: "digits m = digits n \<Longrightarrow> m = n"
  by (metis parse_digits_digits)

lemma set_digits: "set (digits n) \<subseteq> set ''0123456789''"
proof (induction n rule: digits.induct)
  case (1 n)
  show ?case
  proof (cases "n < 10")
    case True
    then show ?thesis
      using digit_char_in [of n] by (simp add: digits.simps [of n])
  next
    case False
    then show ?thesis
      using 1 digit_char_in [of "n mod 10"] by (simp add: digits.simps [of n])
  qed
qed

lemma digits_not_Nil: "digits n \<noteq> []"
  by (simp add: digits.simps [of n])

lemma minus_not_in_digits: "CHR ''-'' \<notin> set (digits n)"
  using set_digits [of n] by auto

lemma space_not_in_digits: "CHR '' '' \<notin> set (digits n)"
  using set_digits [of n] by auto

lemma digits_neq_minus: "digits m \<noteq> CHR ''-'' # s" "CHR ''-'' # s \<noteq> digits m"
  using minus_not_in_digits [of m] by (metis list.set_intros(1))+

lemma Number_toString_inj: "Number_toString i = Number_toString j \<Longrightarrow> i = j"
proof (cases "i < 0"; cases "j < 0")
  assume "Number_toString i = Number_toString j" "i < 0" "j < 0"
  then have "nat (- i) = nat (- j)"
    by (auto simp: Number_toString_def dest: digits_inj)
  with \<open>i < 0\<close> \<open>j < 0\<close> show ?thesis by arith
next
  assume "Number_toString i = Number_toString j" "i < 0" "\<not> j < 0"
  then show ?thesis
    by (simp add: Number_toString_def digits_neq_minus)
next
  assume "Number_toString i = Number_toString j" "\<not> i < 0" "j < 0"
  then show ?thesis
    by (simp add: Number_toString_def digits_neq_minus)
next
  assume "Number_toString i = Number_toString j" "\<not> i < 0" "\<not> j < 0"
  then have "nat i = nat j"
    by (auto simp: Number_toString_def dest: digits_inj)
  with \<open>\<not> i < 0\<close> \<open>\<not> j < 0\<close> show ?thesis by arith
qed

lemma space_not_in_Number_toString: "CHR '' '' \<notin> set (Number_toString i)"
  using space_not_in_digits by (simp add: Number_toString_def)

lemma append_space_inj:
  assumes "a @ CHR '' '' # r = b @ CHR '' '' # s"
    and "CHR '' '' \<notin> set a" and "CHR '' '' \<notin> set b"
  shows "a = b \<and> r = s"
proof -
  have "takeWhile (\<lambda>c. c \<noteq> CHR '' '') (a @ CHR '' '' # r) = a"
    using assms(2) by (subst takeWhile_append2) auto
  moreover have "takeWhile (\<lambda>c. c \<noteq> CHR '' '') (b @ CHR '' '' # s) = b"
    using assms(3) by (subst takeWhile_append2) auto
  ultimately have "a = b" using assms(1) by simp
  with assms(1) show ?thesis by simp
qed

lemma uid_eq_iff: "uid d = uid e \<longleftrightarrow> pair_key d = pair_key e"
proof
  assume eq: "uid d = uid e"
  have "Number_toString (ptCode d) @ CHR '' '' # (''- '' @ Number_toString (period d))
      = Number_toString (ptCode e) @ CHR '' '' # (''- '' @ Number_toString (period e))"
    using eq by (simp add: uid_def)
  from append_space_inj [OF this space_not_in_Number_toString space_not_in_Number_toString]
  have "Number_toString (ptCode d) = Number_toString (ptCode e)"
    and "Number_toString (period d) = Number_toString (period e)"
    by simp_all
  then show "pair_key d = pair_key e"
    by (simp add: pair_key_def Number_toString_inj)
next
  assume "pair_key d = pair_key e"
  then show "uid d = uid e" by (simp add: pair_key_def uid_def)
qed

section \<open>Properties of uniqueData\<close>

lemma set_uniqueData_map:
  "uid ` set (filter_defined (uniqueData_map seen ds)) = uid ` set ds - set seen"
proof (induction ds arbitrary: seen)
  case Nil
  then show ?case by simp
next
  case (Cons d ds)
  show ?case
  proof (cases "uid d \<in> set seen")
    case True
    then show ?thesis using Cons [of seen] by (auto simp: Set_has_def)
  next
    case False
    then show ?thesis using Cons [of "seen @ [uid d]"] by (auto simp: Set_has_def Set_add_def)
  qed
qed

lemma distinct_uniqueData_map:
  "distinct seen \<Longrightarrow> distinct (map uid (filter_defined (uniqueData_map seen ds)))"
proof (induction ds arbitrary: seen)
  case Nil
  then show ?case by simp
next
  case (Cons d ds)
  show ?case
  proof (cases "uid d \<in> set seen")
    case True
    then show ?thesis using Cons by (simp add: Set_has_def)
  next
    case False
    have "uid d \<notin> uid ` set (filter_defined (uniqueData_map (seen @ [uid d]) ds))"
      by (simp add: set_uniqueData_map)
    moreover have "distinct (map uid (filter_defined (uniqueData_map (seen @ [uid d]) ds)))"
      using Cons False by simp
    ultimately show ?thesis using False by (simp add: Set_has_def Set_add_def)
  qed
qed

lemma subseq_uniqueData_map: "subseq (filter_defined (uniqueData_map seen ds)) ds"
proof (induction ds arbitrary: seen)
  case Nil
  then show ?case by simp
next
  case (Cons d ds)
  show ?case
  proof (cases "uid d \<in> set seen")
    case True
    then show ?thesis using list_emb_Cons [OF Cons [of seen], of d] by (simp add: Set_has_def)
  next
    case False
    then show ?thesis using Cons [of "seen @ [uid d]"] by (simp add: Set_has_def Set_add_def)
  qed
qed

lemma first_uniqueData_map:
  "d \<in> set (filter_defined (uniqueData_map seen ds)) \<Longrightarrow>
     find (\<lambda>e. uid e = uid d) ds = Some d"
proof (induction ds arbitrary: seen)
  case Nil
  then show ?case by simp
next
  case (Cons x xs)
  show ?case
  proof (cases "uid x \<in> set seen")
    case True
    with Cons.prems have in_rest: "d \<in> set (filter_defined (uniqueData_map seen xs))"
      by (simp add: Set_has_def)
    then have "uid d \<in> uid ` set xs - set seen"
      using set_uniqueData_map [of seen xs] by blast
    with True have "uid x \<noteq> uid d" by auto
    with Cons.IH [OF in_rest] show ?thesis by simp
  next
    case False
    with Cons.prems have
      "d = x \<or> d \<in> set (filter_defined (uniqueData_map (seen @ [uid x]) xs))"
      by (auto simp: Set_has_def Set_add_def)
    then show ?thesis
    proof
      assume "d = x"
      then show ?thesis by simp
    next
      assume in_rest: "d \<in> set (filter_defined (uniqueData_map (seen @ [uid x]) xs))"
      then have "uid d \<in> uid ` set xs - set (seen @ [uid x])"
        using set_uniqueData_map [of "seen @ [uid x]" xs] by blast
      then have "uid x \<noteq> uid d" by auto
      with Cons.IH [OF in_rest] show ?thesis by simp
    qed
  qed
qed

lemma uniqueData_map_fixed:
  "distinct (map uid ds) \<Longrightarrow> uid ` set ds \<inter> set seen = {} \<Longrightarrow>
     filter_defined (uniqueData_map seen ds) = ds"
proof (induction ds arbitrary: seen)
  case Nil
  then show ?case by simp
next
  case (Cons d ds)
  from Cons.prems have new: "uid d \<notin> set seen" by auto
  from Cons.prems have "distinct (map uid ds)" and "uid ` set ds \<inter> set (seen @ [uid d]) = {}"
    by auto
  then have "filter_defined (uniqueData_map (seen @ [uid d]) ds) = ds"
    by (rule Cons.IH)
  with new show ?case by (simp add: Set_has_def Set_add_def)
qed

lemma map_uid_eq_imp: "uid ` A = uid ` B \<Longrightarrow> pair_key ` A = pair_key ` B"
proof -
  have *: "uid ` A \<subseteq> uid ` B \<Longrightarrow> pair_key ` A \<subseteq> pair_key ` B" for A B
  proof
    fix k assume sub: "uid ` A \<subseteq> uid ` B" and "k \<in> pair_key ` A"
    then obtain a where a: "a \<in> A" "k = pair_key a" by auto
    with sub obtain b where "b \<in> B" "uid a = uid b" by auto
    with a show "k \<in> pair_key ` B" by (auto simp: uid_eq_iff)
  qed
  assume "uid ` A = uid ` B"
  then show ?thesis using * [of A B] * [of B A] by auto
qed

lemma distinct_map_uid_iff: "distinct (map uid xs) \<longleftrightarrow> distinct (map pair_key xs)"
  by (simp add: distinct_map inj_on_def uid_eq_iff)

text \<open>
  C1. For every list of records, \<open>uniqueData\<close> returns exactly one record for each
  (partner code, period) pair that occurs in the input: the pairs of the output are
  pairwise different, they are the pairs of the input, and each record returned is the
  first record of the input, in input order, that has its pair.
\<close>

theorem uniqueData_first_per_pair:
  "distinct (map pair_key (uniqueData data))
   \<and> set (map pair_key (uniqueData data)) = set (map pair_key data)
   \<and> (\<forall>d \<in> set (uniqueData data). find (\<lambda>e. pair_key e = pair_key d) data = Some d)"
proof (intro conjI ballI)
  have "distinct (map uid (uniqueData data))"
    unfolding uniqueData_def by (rule distinct_uniqueData_map) simp
  then show "distinct (map pair_key (uniqueData data))"
    by (rule distinct_map_uid_iff [THEN iffD1])
  have "uid ` set (uniqueData data) = uid ` set data"
    unfolding uniqueData_def set_uniqueData_map by simp
  then have "pair_key ` set (uniqueData data) = pair_key ` set data"
    by (rule map_uid_eq_imp)
  then show "set (map pair_key (uniqueData data)) = set (map pair_key data)"
    by simp
next
  fix d assume "d \<in> set (uniqueData data)"
  then have "find (\<lambda>e. uid e = uid d) data = Some d"
    unfolding uniqueData_def by (rule first_uniqueData_map)
  then show "find (\<lambda>e. pair_key e = pair_key d) data = Some d"
    by (simp add: uid_eq_iff)
qed

theorem uniqueData_first_per_pair_witness:
  "uniqueData sample_dup =
     [\<lparr>ptCode = 0, ptTitle = ''World'', period = 2020, TradeValue = 100\<rparr>,
      \<lparr>ptCode = 124, ptTitle = ''Canada'', period = 2020, TradeValue = 30\<rparr>,
      \<lparr>ptCode = 0, ptTitle = ''World'', period = 2019, TradeValue = 90\<rparr>]
   \<and> distinct (map pair_key (uniqueData sample_dup))
   \<and> set (map pair_key (uniqueData sample_dup)) = set (map pair_key sample_dup)
   \<and> find (\<lambda>e. pair_key e = (124, 2020)) sample_dup
       = Some \<lparr>ptCode = 124, ptTitle = ''Canada'', period = 2020, TradeValue = 30\<rparr>"
proof -
  have run: "uniqueData sample_dup =
     [\<lparr>ptCode = 0, ptTitle = ''World'', period = 2020, TradeValue = 100\<rparr>,
      \<lparr>ptCode = 124, ptTitle = ''Canada'', period = 2020, TradeValue = 30\<rparr>,
      \<lparr>ptCode = 0, ptTitle = ''World'', period = 2019, TradeValue = 90\<rparr>]"
    by (simp add: uniqueData_def sample_dup_def Set_has_def Set_add_def uid_def
        Number_toString_def digits.simps digit_char_def)
  from uniqueData_first_per_pair [of sample_dup] show ?thesis
    unfolding run by (simp add: pair_key_def)
qed

text \<open>
  C10. The output of \<open>uniqueData\<close> is a subsequence of its input (the records that stay
  keep their relative order), and \<open>uniqueData\<close> applied to its own output returns it
  unchanged.
\<close>

theorem uniqueData_subseq_idempotent:
  "subseq (uniqueData data) data \<and> uniqueData (uniqueData data) = uniqueData data"
proof
  show "subseq (uniqueData data) data"
    unfolding uniqueData_def by (rule subseq_uniqueData_map)
  have "distinct (map uid (uniqueData data))"
    unfolding uniqueData_def by (rule distinct_uniqueData_map) simp
  then have "filter_defined (uniqueData_map [] (uniqueData data)) = uniqueData data"
    by (rule uniqueData_map_fixed) simp
  then show "uniqueData (uniqueData data) = uniqueData data"
    by (simp add: uniqueData_def [of "uniqueData data"])
qed

section \<open>Parsing and formatting years\<close>

lemma length_digits_gt: "10 ^ k \<le> n \<Longrightarrow> k < length (digits n)"
proof (induction k arbitrary: n)
  case 0
  then show ?case using digits_not_Nil [of n] by (cases "digits n") simp_all
next
  case (Suc k)
  then have "10 ^ k \<le> n div 10" by simp
  then have "k < length (digits (n div 10))" by (rule Suc.IH)
  moreover have "(10::nat) \<le> 10 ^ Suc k" by simp
  with Suc.prems have "\<not> n < 10" by linarith
  ultimately show ?case by (simp add: digits.simps [of n])
qed

lemma length_digits_le: "n < 10 ^ Suc k \<Longrightarrow> length (digits n) \<le> Suc k"
proof (induction k arbitrary: n)
  case 0
  then show ?case by (simp add: digits.simps [of n])
next
  case (Suc k)
  show ?case
  proof (cases "n < 10")
    case True
    then show ?thesis by (simp add: digits.simps [of n])
  next
    case False
    from Suc.prems have "n div 10 < 10 ^ Suc k"
      by (simp add: less_mult_imp_div_less mult.commute)
    then have "length (digits (n div 10)) \<le> Suc k" by (rule Suc.IH)
    with False show ?thesis by (simp add: digits.simps [of n])
  qed
qed

lemma is_digit_digits: "c \<in> set (digits n) \<Longrightarrow> is_digit c"
  unfolding is_digit_def by (rule subsetD [OF set_digits])

lemma not_space_digit: "is_digit c \<Longrightarrow> \<not> is_space c"
  by (auto simp: is_digit_def is_space_def)

lemma takeWhile_digit_prefix:
  "takeWhile is_digit (take k (digits n)) = take k (digits n)"
  by (rule takeWhile_eq_all_conv [THEN iffD2]) (auto dest: in_set_takeD is_digit_digits)

lemma dropWhile_none: "\<forall>c\<in>set xs. \<not> P c \<Longrightarrow> dropWhile P xs = xs"
  by (cases xs) simp_all

lemma takeWhile_none: "\<forall>c\<in>set xs. \<not> P c \<Longrightarrow> takeWhile P xs = []"
  by (cases xs) simp_all

lemma no_space_prefix: "\<forall>c\<in>set (take k (digits n)). \<not> is_space c"
  by (auto dest: in_set_takeD is_digit_digits not_space_digit)

lemma dropWhile_space_prefix:
  "dropWhile is_space (take k (digits n)) = take k (digits n)"
  by (rule dropWhile_none) (rule no_space_prefix)

lemma takeWhile_space_prefix:
  "takeWhile is_space (take k (digits n)) = []"
  by (rule takeWhile_none) (rule no_space_prefix)

lemma parseFullYear_digits:
  "parseFullYear (digits n) =
     Some (int (parse_digits (take 4 (digits n))), min (length (digits n)) 4)"
proof -
  have "take 4 (digits n) \<noteq> []"
    using digits_not_Nil [of n] by simp
  then show ?thesis
    by (simp add: parseFullYear_def takeWhile_digit_prefix dropWhile_space_prefix
        takeWhile_space_prefix)
qed

lemma parseFullYear_minus: "parseFullYear (CHR ''-'' # s) = None"
  by (simp add: parseFullYear_def is_space_def is_digit_def)

lemma period2date_Number_toString:
  "period2date (Number_toString y) = (if 0 \<le> y \<and> y \<le> 9999 then Some (year_start y) else None)"
proof -
  consider "y < 0" | "0 \<le> y" "y \<le> 9999" | "9999 < y" by linarith
  then show ?thesis
  proof cases
    case 1
    then show ?thesis
      by (simp add: period2date_def Number_toString_def parseFullYear_minus)
  next
    case 2
    then have "nat y < 10 ^ Suc 3" by simp
    then have "length (digits (nat y)) \<le> 4"
      using length_digits_le [of "nat y" 3] by simp
    with 2 show ?thesis
      by (simp add: period2date_def Number_toString_def parseFullYear_digits
          parse_digits_digits min_def)
  next
    case 3
    then have "10 ^ 4 \<le> nat y" by simp
    then have "4 < length (digits (nat y))" by (rule length_digits_gt)
    with 3 show ?thesis
      by (simp add: period2date_def Number_toString_def parseFullYear_digits)
  qed
qed

lemma year_down_above: "y \<le> e \<Longrightarrow> year_down (TimeFromYear y) e = y"
proof (induction e rule: int_ge_induct)
  case base
  then show ?case by (simp add: year_down.simps [of _ y])
next
  case (step i)
  have "\<not> TimeFromYear (i + 1) \<le> TimeFromYear y"
    using TimeFromYear_less [of y "i + 1"] step.hyps by simp
  then show ?case using step.IH by (simp add: year_down.simps [of _ "i + 1"])
qed

lemma year_down_below: "e \<le> y \<Longrightarrow> year_down (TimeFromYear y) e = e"
proof -
  assume "e \<le> y"
  then have "TimeFromYear e \<le> TimeFromYear y"
    using TimeFromYear_less [of e y] by (cases "e = y") simp_all
  then show ?thesis by (subst year_down.simps) simp
qed

lemma year_up_below: "e \<le> y \<Longrightarrow> year_up (TimeFromYear y) e = y"
proof (induction "nat (y - e)" arbitrary: e)
  case 0
  then have "e = y" by simp
  moreover have "\<not> TimeFromYear (y + 1) \<le> TimeFromYear y"
    using TimeFromYear_less [of y "y + 1"] by simp
  ultimately show ?case by (simp add: year_up.simps [of _ y])
next
  case (Suc k)
  then have lt: "e < y" and k: "k = nat (y - (e + 1))" and le: "e + 1 \<le> y" by simp_all
  have "TimeFromYear (e + 1) \<le> TimeFromYear y"
    using TimeFromYear_less [of "e + 1" y] le by (cases "e + 1 = y") simp_all
  moreover have "year_up (TimeFromYear y) (e + 1) = y"
    using Suc.hyps(1) [OF k le] .
  ultimately show ?case by (simp add: year_up.simps [of _ e])
qed

lemma YearFromTime_TimeFromYear: "YearFromTime (TimeFromYear y) = y"
proof -
  let ?e = "1970 + (TimeFromYear y div msPerDay) div 366"
  have "year_down (TimeFromYear y) ?e \<le> y"
    using year_down_above [of y ?e] year_down_below [of ?e y] by (cases "y \<le> ?e") simp_all
  then show ?thesis
    unfolding YearFromTime_def by (rule year_up_below)
qed

lemma pad_four_digits: "1000 \<le> y \<Longrightarrow> pad y 4 = Number_toString y"
proof -
  assume y: "1000 \<le> y"
  then have "10 ^ 3 \<le> nat y" by simp
  then have "3 < length (digits (nat y))" by (rule length_digits_gt)
  with y show ?thesis by (simp add: pad_def Number_toString_def)
qed

lemma date2period_year_start:
  "1000 \<le> y \<Longrightarrow> y \<le> 9999 \<Longrightarrow> date2period (Some (year_start y)) = Number_toString y"
  by (simp add: date2period_def year_start_def YearFromTime_TimeFromYear js_rem_def pad_four_digits)

section \<open>Properties of getPeriods\<close>

lemma new_Set_snoc: "new_Set (xs @ [x]) = Set_add x (new_Set xs)"
  by (simp add: new_Set_def)

lemma new_Set_first_occurrences: "new_Set xs = rev (remdups (rev xs))"
proof (induction xs rule: rev_induct)
  case Nil
  then show ?case by (simp add: new_Set_def)
next
  case (snoc x xs)
  then show ?case by (simp add: new_Set_snoc Set_add_def Set_has_def)
qed

lemma set_new_Set: "set (new_Set xs) = set xs"
  by (simp add: new_Set_first_occurrences)

lemma distinct_new_Set: "distinct (new_Set xs)"
  by (simp add: new_Set_first_occurrences)

lemma ToNumber_year_start: "ToNumber (Some (year_start y)) = TimeFromYear y"
  by (simp add: year_start_def)

lemma TimeFromYear_le_iff: "TimeFromYear y \<le> TimeFromYear y' \<longleftrightarrow> y \<le> y'"
  using TimeFromYear_less [of y y'] TimeFromYear_less [of y' y]
  by (cases y y' rule: linorder_cases) auto

lemma TimeFromYear_inj: "TimeFromYear y = TimeFromYear y' \<Longrightarrow> y = y'"
  using TimeFromYear_le_iff [of y y'] TimeFromYear_le_iff [of y' y] by simp

lemma sort_key_year_dates:
  assumes "distinct ys"
  shows "sort_key ToNumber (map (\<lambda>y. Some (year_start y)) ys)
      = map (\<lambda>y. Some (year_start y)) (sorted_list_of_set (set ys))"
    (is "?R = map ?D ?S")
proof (rule map_sorted_distinct_set_unique [where f = ToNumber])
  have img: "set ?R = ?D ` set ys" "set (map ?D ?S) = ?D ` set ys"
    by simp_all
  have inj: "inj_on ToNumber (?D ` set ys)"
    by (auto simp: inj_on_def ToNumber_year_start dest: TimeFromYear_inj)
  show "inj_on ToNumber (set ?R \<union> set (map ?D ?S))"
    unfolding img using inj by simp
  show "sorted (map ToNumber ?R)"
    by (rule sorted_sort_key)
  have "distinct (map ?D ys)"
    using assms by (simp add: distinct_map inj_on_def year_start_def TimeFromYear_inj)
  then have "distinct ?R" by simp
  then show "distinct (map ToNumber ?R)"
    using inj unfolding distinct_map img by simp
  have keys: "map ToNumber (map ?D ?S) = map TimeFromYear ?S"
    by (simp add: ToNumber_year_start)
  show "sorted (map ToNumber (map ?D ?S))"
    unfolding keys
    by (rule sorted_map_mono) (simp_all add: mono_on_def TimeFromYear_le_iff)
  show "distinct (map ToNumber (map ?D ?S))"
    unfolding keys by (simp add: distinct_map inj_on_def TimeFromYear_inj)
  show "set ?R = set (map ?D ?S)"
    unfolding img ..
qed

lemma getPeriods_years:
  assumes "\<forall>d\<in>set data. 0 \<le> period d \<and> period d \<le> 9999"
  shows "getPeriods data = map (\<lambda>y. Some (year_start y)) (sorted_list_of_set (period ` set data))"
proof -
  have m: "map (\<lambda>p. period2date (Number_toString p)) (new_Set (map period data))
      = map (\<lambda>y. Some (year_start y)) (new_Set (map period data))"
    using assms by (simp add: period2date_Number_toString set_new_Set)
  show ?thesis
    unfolding getPeriods_def m
    using sort_key_year_dates [OF distinct_new_Set [of "map period data"]]
    by (simp add: set_new_Set)
qed

text \<open>
  C4 (amended). For every list of records whose periods are years between 0 and 9999
  (the years that \<open>timeParse('%Y')\<close> reads), \<open>getPeriods\<close> returns the dates of the
  distinct periods of the input, one each, in strictly ascending order of their time values.
\<close>

theorem getPeriods_ascending_distinct:
  assumes "\<forall>d\<in>set data. 0 \<le> period d \<and> period d \<le> 9999"
  shows "sorted_wrt (<) (map ToNumber (getPeriods data))
    \<and> distinct (getPeriods data)
    \<and> set (getPeriods data) = (\<lambda>d. Some (year_start (period d))) ` set data
    \<and> getPeriods data
        = map (\<lambda>y. Some (year_start y)) (sorted_list_of_set (period ` set data))"
proof -
  let ?S = "sorted_list_of_set (period ` set data)"
  have eq: "getPeriods data = map (\<lambda>y. Some (year_start y)) ?S"
    using assms by (rule getPeriods_years)
  have "sorted_wrt (<) ?S" by (rule strict_sorted_list_of_set)
  then have asc: "sorted_wrt (<) (map TimeFromYear ?S)"
    by (rule sorted_wrt_map_mono) (rule TimeFromYear_less)
  have keys: "map ToNumber (map (\<lambda>y. Some (year_start y)) ?S) = map TimeFromYear ?S"
    by (simp add: ToNumber_year_start)
  have "distinct (map (\<lambda>y. Some (year_start y)) ?S)"
    by (simp add: distinct_map inj_on_def year_start_def TimeFromYear_inj)
  moreover have "set (map (\<lambda>y. Some (year_start y)) ?S)
      = (\<lambda>d. Some (year_start (period d))) ` set data"
    by (simp add: image_image)
  ultimately show ?thesis
    unfolding eq keys using asc by simp
qed

lemma Number_toString_eq_iff: "Number_toString i = Number_toString j \<longleftrightarrow> i = j"
  by (auto dest: Number_toString_inj)

lemmas eval_periods =
  getPeriods_def new_Set_def Set_add_def Set_has_def Set_delete_def
  period2date_Number_toString ToNumber_year_start TimeFromYear_le_iff
  periodData_def date2period_year_start Number_toString_eq_iff

lemma getPeriods_sample_dup:
  "getPeriods sample_dup = [Some (year_start 2019), Some (year_start 2020)]"
  by (simp add: sample_dup_def eval_periods)

lemma getPeriods_sample_no_world:
  "getPeriods sample_no_world = [Some (year_start 2019), Some (year_start 2020)]"
  by (simp add: sample_no_world_def eval_periods)

theorem getPeriods_months_counterexample:
  "getPeriods sample_months = [None, None] \<and> \<not> distinct (getPeriods sample_months)"
  by (simp add: sample_months_def eval_periods)

theorem getPeriods_ascending_distinct_witness:
  "getPeriods sample_dup = [Some (year_start 2019), Some (year_start 2020)]
   \<and> sorted_wrt (<) (map ToNumber (getPeriods sample_dup))
   \<and> distinct (getPeriods sample_dup)"
proof -
  have "\<forall>d\<in>set sample_dup. 0 \<le> period d \<and> period d \<le> 9999"
    by (simp add: sample_dup_def)
  note t = getPeriods_ascending_distinct [OF this]
  from t have a: "sorted_wrt (<) (map ToNumber (getPeriods sample_dup))"
    by (rule conjunct1)
  from t have b: "distinct (getPeriods sample_dup)"
    by (elim conjE)
  from getPeriods_sample_dup a b show ?thesis
    by (intro conjI)
qed

section \<open>Rounding to doubles\<close>

lemma floor_rat_numeral:
  "\<lfloor>numeral a / numeral b :: rat\<rfloor> = numeral a div numeral b"
  "\<lfloor>- (numeral a / numeral b) :: rat\<rfloor> = - numeral a div numeral b"
  using floor_divide_of_int_eq [of "numeral a" "numeral b", where ?'a = rat]
    floor_divide_of_int_eq [of "- numeral a" "numeral b", where ?'a = rat]
  by simp_all

lemmas eval_double =
  round_double_def ilog2_def log2_up.simps log2_down.simps pow2_def round_half_even_def Let_def
  js_sub_def floor_rat_numeral


lemma pow2_powi: "pow2 e = 2 powi e"
  by (simp add: pow2_def power_int_def inverse_eq_divide power_one_over)


lemma pow2_add: "pow2 (a + b) = pow2 a * pow2 b"
  by (simp add: pow2_powi power_int_add)

lemma pow2_0 [simp]: "pow2 0 = 1"
  by (simp add: pow2_def)

lemma pow2_Suc: "pow2 (e + 1) = 2 * pow2 e"
  using pow2_add [of e 1] by (simp add: pow2_def)

lemma pow2_pred: "pow2 (e - 1) = pow2 e / 2"
  using pow2_Suc [of "e - 1"] by simp


lemma pow2_mono: "a \<le> b \<Longrightarrow> pow2 a \<le> pow2 b"
  by (simp add: pow2_powi power_int_increasing)

lemma log2_up_bounds:
  "1 \<le> x \<Longrightarrow> pow2 (log2_up x) \<le> x \<and> x < pow2 (log2_up x + 1)"
proof (induction x rule: log2_up.induct)
  case (1 x)
  show ?case
  proof (cases "2 \<le> x")
    case True
    then have "1 \<le> x / 2" by simp
    with "1.IH" True
    have "pow2 (log2_up (x / 2)) \<le> x / 2" and "x / 2 < pow2 (log2_up (x / 2) + 1)"
      by simp_all
    moreover have "log2_up x = log2_up (x / 2) + 1"
      using True by (subst log2_up.simps) simp
    moreover have "pow2 (log2_up (x / 2) + 1 + 1) = 2 * pow2 (log2_up (x / 2) + 1)"
      and "pow2 (log2_up (x / 2) + 1) = 2 * pow2 (log2_up (x / 2))"
      by (rule pow2_Suc)+
    ultimately show ?thesis
      by simp
  next
    case False
    then have "log2_up x = 0" by (subst log2_up.simps) simp
    with False "1.prems" show ?thesis by (simp add: pow2_def)
  qed
qed

lemma log2_down_bounds:
  "0 < x \<Longrightarrow> x < 1 \<Longrightarrow> pow2 (log2_down x) \<le> x \<and> x < pow2 (log2_down x + 1)"
proof (induction x rule: log2_down.induct)
  case (1 x)
  have e: "log2_down x = log2_down (2 * x) - 1"
    using "1.prems" by (subst log2_down.simps) simp
  show ?case
  proof (cases "2 * x < 1")
    case True
    with "1.IH" "1.prems"
    have "pow2 (log2_down (2 * x)) \<le> 2 * x" and "2 * x < pow2 (log2_down (2 * x) + 1)"
      by simp_all
    then show ?thesis
      by (simp add: e pow2_pred pow2_Suc)
  next
    case False
    then have "log2_down (2 * x) = 0" by (subst log2_down.simps) simp
    with False "1.prems" show ?thesis by (simp add: e pow2_def)
  qed
qed

lemma ilog2_bounds:
  assumes "0 < x"
  shows "pow2 (ilog2 x) \<le> x" and "x < pow2 (ilog2 x + 1)"
  using assms log2_up_bounds [of x] log2_down_bounds [of x]
  by (simp_all add: ilog2_def)

lemma round_half_even_of_int [simp]: "round_half_even (of_int n) = n"
  by (simp add: round_half_even_def)


text \<open>Integers below \<open>2^53\<close> are doubles.\<close>

lemma round_double_of_int:
  assumes "\<bar>k\<bar> < 2 ^ 53"
  shows "round_double (of_int k) = Num (of_int k)"
proof (cases "k = 0")
  case True
  then show ?thesis by (simp add: round_double_def)
next
  case False
  define x :: rat where "x = of_int k"
  define e where "e = ilog2 \<bar>x\<bar>"
  have pos: "0 < \<bar>x\<bar>" and one: "1 \<le> \<bar>x\<bar>" and lt: "\<bar>x\<bar> < 2 ^ 53"
    using False assms unfolding x_def
    by (simp_all flip: of_int_abs)
  have lo: "pow2 e \<le> \<bar>x\<bar>" and hi: "\<bar>x\<bar> < pow2 (e + 1)"
    unfolding e_def using ilog2_bounds [OF pos] by simp_all
  have e0: "0 \<le> e"
  proof (rule ccontr)
    assume "\<not> 0 \<le> e"
    then have "pow2 (e + 1) \<le> pow2 0" by (intro pow2_mono) simp
    with hi one show False by simp
  qed
  have e52: "e \<le> 52"
  proof (rule ccontr)
    assume "\<not> e \<le> 52"
    then have "pow2 53 \<le> pow2 e" by (intro pow2_mono) simp
    with lo lt show False by (simp add: pow2_def)
  qed
  define n where "n = nat (52 - e)"
  have q: "max e (- 1022) - 52 = - int n"
    using e0 e52 by (simp add: n_def)
  have p: "pow2 (- int n) = 1 / 2 ^ n"
    by (simp add: pow2_def)
  have "x / pow2 (- int n) = of_int (k * 2 ^ n)"
    by (simp add: p x_def)
  then have "round_half_even (x / pow2 (- int n)) = k * 2 ^ n"
    by (simp only: round_half_even_of_int)
  then have r: "of_int (round_half_even (x / pow2 (- int n))) * pow2 (- int n) = x"
    by (simp add: p x_def)
  have "x < 2 ^ 1024" and "- (2 ^ 1024) < x"
    using lt by (simp_all add: abs_less_iff)
  then show ?thesis
    using False r unfolding round_double_def x_def [symmetric] e_def [symmetric] Let_def q
    by (simp add: x_def)
qed




lemma round_double_numeral:
  "(numeral n :: int) < 2 ^ 53 \<Longrightarrow> round_double (numeral n) = Num (numeral n)"
  "(numeral n :: int) < 2 ^ 53 \<Longrightarrow> round_double (- numeral n) = Num (- numeral n)"
  "round_double 0 = Num 0"
  "round_double 1 = Num 1"
  using round_double_of_int [of "numeral n"] round_double_of_int [of "- numeral n"]
    round_double_of_int [of 0] round_double_of_int [of 1]
  by simp_all


lemma round_half_even_le:
  assumes "y \<le> of_int n"
  shows "round_half_even y \<le> n"
proof (cases "\<lfloor>y\<rfloor> = n")
  case True
  then have "of_int n \<le> y" by (metis of_int_floor_le)
  with assms have "y = of_int n" by simp
  then show ?thesis by (simp only: round_half_even_of_int)
next
  case False
  moreover from assms have "\<lfloor>y\<rfloor> \<le> n" by (simp add: floor_le_iff)
  ultimately have "\<lfloor>y\<rfloor> + 1 \<le> n" by simp
  then show ?thesis by (simp add: round_half_even_def Let_def)
qed

lemma round_half_even_ge:
  assumes "of_int n + 1 / 2 < y"
  shows "n + 1 \<le> round_half_even y"
proof (cases "\<lfloor>y\<rfloor> = n")
  case True
  with assms have "1 / 2 < y - of_int \<lfloor>y\<rfloor>" by simp
  with True show ?thesis by (simp add: round_half_even_def Let_def)
next
  case False
  moreover from assms have "n \<le> \<lfloor>y\<rfloor>" by (simp add: le_floor_iff)
  ultimately have "n + 1 \<le> \<lfloor>y\<rfloor>" by simp
  then show ?thesis by (simp add: round_half_even_def Let_def)
qed

lemma round_half_even_floor:
  "\<lfloor>y\<rfloor> \<le> round_half_even y" "round_half_even y \<le> \<lfloor>y\<rfloor> + 1"
  by (simp_all add: round_half_even_def Let_def)

text \<open>
  The quotient by 20 of an integer below \<open>2^53\<close> is rounded by less than \<open>1/20\<close>, so that
  comparing an integer with the rounded quotient is comparing it with the exact one.
\<close>

lemma ge_twentieth:
  assumes w: "w \<in> \<int>" and t: "t \<in> \<int>" and bound: "\<bar>w\<bar> < 2 ^ 53"
  shows "js_ge (Num t) (round_double (w / 20)) \<longleftrightarrow> w / 20 \<le> t"
proof (cases "w = 0")
  case True
  then show ?thesis by (simp add: round_double_def)
next
  case False
  define x where "x = w / 20"
  define e where "e = ilog2 \<bar>x\<bar>"
  define q where "q = max e (- 1022) - 52"
  define n where "n = nat (- q)"
  define m where "m = round_half_even (x / pow2 q)"
  define r where "r = of_int m * pow2 q"
  from t obtain ti where ti: "t = of_int ti" by (rule Ints_cases)
  from w obtain wi where wi: "w = of_int wi" by (rule Ints_cases)
  from False have x0: "x \<noteq> 0" and pos: "0 < \<bar>x\<bar>" by (simp_all add: x_def)
  have xlt: "\<bar>x\<bar> < 2 ^ 49"
    using bound by (simp add: x_def)
  have lo: "pow2 e \<le> \<bar>x\<bar>"
    unfolding e_def using ilog2_bounds [OF pos] by simp
  have e48: "e \<le> 48"
  proof (rule ccontr)
    assume "\<not> e \<le> 48"
    then have "pow2 49 \<le> pow2 e" by (intro pow2_mono) simp
    with lo xlt show False by (simp add: pow2_def)
  qed
  then have q4: "q \<le> - 4" by (simp add: q_def)
  then have q: "q = - int n" and n4: "4 \<le> n" by (simp_all add: n_def)
  have p: "pow2 q = 1 / 2 ^ n"
    using q4 by (simp add: pow2_def n_def)
  have y: "x / pow2 q = x * 2 ^ n" by (simp add: p)
  have "(2 :: rat) ^ 4 \<le> 2 ^ n"
    using n4 by (intro power_increasing) simp_all
  then have n16: "(16 :: rat) \<le> 2 ^ n" by simp
  have r_eq: "r = of_int m / 2 ^ n" by (simp add: r_def p)
  have "\<lfloor>x * 2 ^ n\<rfloor> \<le> m" "m \<le> \<lfloor>x * 2 ^ n\<rfloor> + 1"
    using round_half_even_floor [of "x * 2 ^ n"] unfolding m_def y by simp_all
  then have "(of_int \<lfloor>x * 2 ^ n\<rfloor> :: rat) \<le> of_int m"
    and "(of_int m :: rat) \<le> of_int (\<lfloor>x * 2 ^ n\<rfloor> + 1)"
    by (simp_all only: of_int_le_iff)
  then have near: "of_int \<lfloor>x * 2 ^ n\<rfloor> \<le> (of_int m :: rat)"
    "(of_int m :: rat) \<le> of_int \<lfloor>x * 2 ^ n\<rfloor> + 1"
    by simp_all
  have "x * 2 ^ n - 1 < of_int m" "of_int m \<le> x * 2 ^ n + 1"
    using near by linarith+
  then have "(x * 2 ^ n - 1) / 2 ^ n < of_int m / 2 ^ n"
    and "of_int m / 2 ^ n \<le> (x * 2 ^ n + 1) / 2 ^ n"
    by (simp_all only: divide_strict_right_mono divide_right_mono zero_less_power
        zero_le_power zero_less_numeral zero_le_numeral)
  then have "x - 1 / 2 ^ n < r" "r \<le> x + 1 / 2 ^ n"
    unfolding r_eq by (simp_all add: diff_divide_distrib add_divide_distrib)
  moreover have "1 / (2 :: rat) ^ n \<le> 1"
    using n16 by (simp add: field_simps)
  ultimately have "\<bar>r\<bar> \<le> \<bar>x\<bar> + 1" by linarith
  with xlt have "\<bar>r\<bar> < 2 ^ 50" by simp
  then have "r < 2 ^ 1024" "- (2 ^ 1024) < r"
    by (simp_all add: abs_less_iff)
  then have rd: "round_double (w / 20) = Num r"
    using x0 unfolding round_double_def x_def [symmetric] e_def [symmetric] Let_def
      q_def [symmetric] m_def [symmetric] r_def [symmetric]
    by (simp add: not_le)
  have "r \<le> t \<longleftrightarrow> x \<le> t"
  proof
    assume "x \<le> t"
    then have "x * 2 ^ n \<le> of_int (ti * 2 ^ n)"
      by (simp add: ti)
    then have "m \<le> ti * 2 ^ n"
      unfolding m_def y by (rule round_half_even_le)
    then have "(of_int m :: rat) \<le> of_int (ti * 2 ^ n)"
      by (simp only: of_int_le_iff)
    then show "r \<le> t"
      by (simp add: r_eq ti field_simps)
  next
    assume rt: "r \<le> t"
    show "x \<le> t"
    proof (rule ccontr)
      assume "\<not> x \<le> t"
      have "ti * 20 < wi"
      proof (rule ccontr)
        assume "\<not> ti * 20 < wi"
        then have "wi \<le> ti * 20" by simp
        then have "(of_int wi :: rat) \<le> of_int (ti * 20)" by (simp only: of_int_le_iff)
        then have "x \<le> t" by (simp add: x_def ti wi)
        with \<open>\<not> x \<le> t\<close> show False ..
      qed
      then have "ti * 20 + 1 \<le> wi" by simp
      then have "(of_int (ti * 20 + 1) :: rat) \<le> of_int wi"
        by (simp only: of_int_le_iff)
      then have gap: "t + 1 / 20 \<le> x"
        by (simp add: x_def ti wi field_simps)
      from gap have "1 / 20 \<le> x - t" by simp
      then have a: "1 / 20 * 2 ^ n \<le> (x - t) * 2 ^ n"
        by (intro mult_right_mono) simp_all
      have b: "1 / 20 * 16 \<le> 1 / 20 * (2 :: rat) ^ n"
        using n16 by (intro mult_left_mono) simp_all
      have "1 / 20 * 16 \<le> (x - t) * 2 ^ n"
        using b a by (rule order_trans)
      moreover have "1 / 20 * 16 = (4 / 5 :: rat)" by simp
      ultimately have "4 / 5 \<le> (x - t) * 2 ^ n" by (simp only:)
      then have "of_int (ti * 2 ^ n) + 1 / 2 < x * 2 ^ n"
        by (simp add: ti field_simps)
      then have "ti * 2 ^ n + 1 \<le> m"
        unfolding m_def y by (rule round_half_even_ge)
      then have "(of_int (ti * 2 ^ n + 1) :: rat) \<le> of_int m"
        by (simp only: of_int_le_iff)
      then have "t < r"
        by (simp add: r_eq ti field_simps)
      with rt show False by simp
    qed
  qed
  then show ?thesis by (simp add: rd x_def)
qed







section \<open>The ranking pass\<close>

lemma filter_truthy_selected:
  "filter_truthy (map (\<lambda>d. if P d \<and> ptCode d \<noteq> world then Some (ptCode d) else None) xs)
     = map ptCode (filter (\<lambda>d. P d \<and> ptCode d \<noteq> world) xs)"
  by (induction xs) (simp_all add: world_def)

lemma find_Some_mem: "find P xs = Some x \<Longrightarrow> x \<in> set xs"
  by (induction xs) (auto split: if_splits)

text \<open>
  C2 (amended). In the ranking pass over a response whose first world record has trade
  value \<open>worldTrade\<close>, the queue holds the partner codes of exactly the records whose trade
  value is at least the quotient \<open>worldTrade / 20\<close> as the script computes it, rounded to a
  double, and whose partner code is not the world's, in the order of the response. The
  threshold is inclusive. When the trade values of the response are integers and the world
  trade is below \<open>2^53\<close>, these are exactly the records with at least 5% of the world trade.
\<close>

theorem unqueriedPartners_threshold:
  assumes "find (\<lambda>d. ptCode d = world) newData = Some w"
  shows "unqueriedPartners newData =
      Inr (map ptCode
        (filter (\<lambda>d. js_ge (Num (TradeValue d)) (round_double (TradeValue w / 20))
                      \<and> ptCode d \<noteq> world) newData))
    \<and> ((\<forall>d\<in>set newData. TradeValue d \<in> \<int>) \<and> \<bar>TradeValue w\<bar> < 2 ^ 53 \<longrightarrow>
         unqueriedPartners newData =
           Inr (map ptCode
             (filter (\<lambda>d. TradeValue d \<ge> TradeValue w / 20 \<and> ptCode d \<noteq> world) newData)))"
proof (intro conjI impI)
  show run: "unqueriedPartners newData =
      Inr (map ptCode
        (filter (\<lambda>d. js_ge (Num (TradeValue d)) (round_double (TradeValue w / 20))
                      \<and> ptCode d \<noteq> world) newData))"
    using assms by (simp add: unqueriedPartners_def filter_truthy_selected)
  assume ints: "(\<forall>d\<in>set newData. TradeValue d \<in> \<int>) \<and> \<bar>TradeValue w\<bar> < 2 ^ 53"
  from assms have "w \<in> set newData" by (rule find_Some_mem)
  with ints have w: "TradeValue w \<in> \<int>" and bound: "\<bar>TradeValue w\<bar> < 2 ^ 53"
    by simp_all
  have "filter (\<lambda>d. js_ge (Num (TradeValue d)) (round_double (TradeValue w / 20))
                    \<and> ptCode d \<noteq> world) newData
      = filter (\<lambda>d. TradeValue d \<ge> TradeValue w / 20 \<and> ptCode d \<noteq> world) newData"
  proof (rule filter_cong [OF refl])
    fix d assume "d \<in> set newData"
    with ints have "TradeValue d \<in> \<int>" by simp
    with w show "(js_ge (Num (TradeValue d)) (round_double (TradeValue w / 20))
          \<and> ptCode d \<noteq> world)
        = (TradeValue d \<ge> TradeValue w / 20 \<and> ptCode d \<noteq> world)"
      using bound by (simp add: ge_twentieth)
  qed
  with run show "unqueriedPartners newData =
      Inr (map ptCode
        (filter (\<lambda>d. TradeValue d \<ge> TradeValue w / 20 \<and> ptCode d \<noteq> world) newData))"
    by simp
qed

lemma decimal_doubles:
  "round_double (999 / 100) = Num (5623870034678907 / 562949953421312)"
  "round_double (1998 / 10) = Num (3514918771674317 / 17592186044416)"
  "round_double (8756 / 10) = Num (7701859050245325 / 8796093022208)"
  "round_double (13736 / 100) = Num (1208231337530491 / 8796093022208)"
  "round_double (20293 / 100) = Num (3569982313993339 / 17592186044416)"
  by (simp_all add: eval_double)

theorem unqueriedPartners_threshold_witness:
  "find (\<lambda>d. ptCode d = world) sample_latest
     = Some \<lparr>ptCode = 0, ptTitle = ''World'', period = 2020, TradeValue = 200\<rparr>
   \<and> round_double (999 / 100) = Num (5623870034678907 / 562949953421312)
   \<and> unqueriedPartners sample_latest = Inr [124]
   \<and> find (\<lambda>d. ptCode d = world) sample_ranking
     = Some \<lparr>ptCode = 0, ptTitle = ''World'', period = 2020, TradeValue = 100\<rparr>
   \<and> unqueriedPartners sample_ranking = Inr [124, 156]"
proof -
  let ?w = "\<lparr>ptCode = 0, ptTitle = ''World'', period = 2020, TradeValue = 200\<rparr>"
  let ?v = "\<lparr>ptCode = 0, ptTitle = ''World'', period = 2020, TradeValue = 100\<rparr>"
  have w: "find (\<lambda>d. ptCode d = world) sample_latest = Some ?w"
    by (simp add: sample_latest_def world_def)
  have v: "find (\<lambda>d. ptCode d = world) sample_ranking = Some ?v"
    by (simp add: sample_ranking_def world_def)
  have twentieth: "round_double (TradeValue ?w / 20) = Num 10"
    by (simp add: round_double_numeral)
  have "unqueriedPartners sample_latest =
      Inr (map ptCode
        (filter (\<lambda>d. js_ge (Num (TradeValue d)) (round_double (TradeValue ?w / 20))
                      \<and> ptCode d \<noteq> world) sample_latest))"
    using unqueriedPartners_threshold [OF w] by (rule conjunct1)
  then have latest: "unqueriedPartners sample_latest = Inr [124]"
    unfolding twentieth by (simp add: sample_latest_def world_def)
  have ints: "(\<forall>d\<in>set sample_ranking. TradeValue d \<in> \<int>) \<and> \<bar>TradeValue ?v\<bar> < 2 ^ 53"
    by (simp add: sample_ranking_def)
  have "(\<forall>d\<in>set sample_ranking. TradeValue d \<in> \<int>) \<and> \<bar>TradeValue ?v\<bar> < 2 ^ 53 \<longrightarrow>
      unqueriedPartners sample_ranking =
        Inr (map ptCode
          (filter (\<lambda>d. TradeValue d \<ge> TradeValue ?v / 20 \<and> ptCode d \<noteq> world) sample_ranking))"
    using unqueriedPartners_threshold [OF v] by (rule conjunct2)
  with ints have "unqueriedPartners sample_ranking =
      Inr (map ptCode
        (filter (\<lambda>d. TradeValue d \<ge> TradeValue ?v / 20 \<and> ptCode d \<noteq> world) sample_ranking))"
    by (rule rev_mp)
  then have ranking: "unqueriedPartners sample_ranking = Inr [124, 156]"
    by (simp add: sample_ranking_def world_def)
  from w v latest ranking decimal_doubles(1) show ?thesis
    by (intro conjI)
qed

text \<open>
  World trade 199.8 and a partner with 9.99, as doubles: the partner's value is below a
  twentieth of the world's, and the partner is queued, because the quotient rounds down to
  the partner's value.
\<close>

theorem decimal_threshold_counterexample:
  "round_double (1998 / 10) = Num (3514918771674317 / 17592186044416)
   \<and> round_double (999 / 100) = Num (5623870034678907 / 562949953421312)
   \<and> find (\<lambda>d. ptCode d = world) sample_decimal
     = Some \<lparr>ptCode = 0, ptTitle = ''World'', period = 2020,
          TradeValue = 3514918771674317 / 17592186044416\<rparr>
   \<and> (5623870034678907 / 562949953421312 :: rat) < 3514918771674317 / 17592186044416 / 20
   \<and> unqueriedPartners sample_decimal = Inr [156]"
proof -
  have "round_double (3514918771674317 / 17592186044416 / 20)
      = Num (5623870034678907 / 562949953421312)"
    by (simp add: eval_double)
  then have "unqueriedPartners sample_decimal = Inr [156]"
    by (simp add: unqueriedPartners_def sample_decimal_def world_def)
  moreover have "find (\<lambda>d. ptCode d = world) sample_decimal
     = Some \<lparr>ptCode = 0, ptTitle = ''World'', period = 2020,
          TradeValue = 3514918771674317 / 17592186044416\<rparr>"
    by (simp add: sample_decimal_def world_def)
  moreover have
    "(5623870034678907 / 562949953421312 :: rat) < 3514918771674317 / 17592186044416 / 20"
    by simp
  ultimately show ?thesis
    using decimal_doubles(1,2) by (intro conjI)
qed

section \<open>Errors and rows of the chart update\<close>

lemma map_periods_Inr:
  "map_periods f ps = (ws, Inr ts) \<Longrightarrow>
     map (\<lambda>p. snd (f p)) ps = map Inr ts \<and> ws = concat (map (\<lambda>p. fst (f p)) ps)"
proof (induction ps arbitrary: ws ts)
  case Nil
  then show ?case by simp
next
  case (Cons p ps)
  obtain w r where fp: "f p = (w, r)" by (cases "f p")
  obtain ws' r' where rest: "map_periods f ps = (ws', r')" by (cases "map_periods f ps")
  from Cons.prems fp rest obtain t ts' where
    r: "r = Inr t" and r': "r' = Inr ts'" and ts: "ts = t # ts'" and ws: "ws = w @ ws'"
    by (cases r; cases r') auto
  from Cons.IH [of ws' ts'] rest r' have
    "map (\<lambda>p. snd (f p)) ps = map Inr ts' \<and> ws' = concat (map (\<lambda>p. fst (f p)) ps)"
    by simp
  with fp r ts ws show ?case by simp
qed

lemma map_periods_Inl:
  "p \<in> set ps \<Longrightarrow> snd (f p) = Inl e \<Longrightarrow> \<exists>e'. snd (map_periods f ps) = Inl e'"
proof (induction ps)
  case Nil
  then show ?case by simp
next
  case (Cons q qs)
  obtain w r where fq: "f q = (w, r)" by (cases "f q")
  obtain ws' r' where rest: "map_periods f qs = (ws', r')" by (cases "map_periods f qs")
  show ?case
  proof (cases r)
    case (Inl a)
    with fq show ?thesis by simp
  next
    case (Inr t)
    with Cons fq have "p \<in> set qs" by auto
    with Cons have "\<exists>e'. snd (map_periods f qs) = Inl e'" by simp
    with rest obtain e' where "r' = Inl e'" by auto
    with fq Inr rest show ?thesis by simp
  qed
qed

lemma map_periods_error_source:
  "snd (map_periods f ps) = Inl e \<Longrightarrow> \<exists>p\<in>set ps. snd (f p) = Inl e"
proof (induction ps)
  case Nil
  then show ?case by simp
next
  case (Cons q qs)
  obtain w r where fq: "f q = (w, r)" by (cases "f q")
  obtain ws' r' where rest: "map_periods f qs = (ws', r')" by (cases "map_periods f qs")
  show ?case
  proof (cases r)
    case (Inl a)
    with fq Cons.prems show ?thesis by simp
  next
    case (Inr t)
    with fq rest Cons.prems have "r' = Inl e" by (cases r') simp_all
    with rest Cons.IH show ?thesis by simp
  qed
qed

lemma periodTrade_error: "snd (periodTrade partners data p) = Inl e \<Longrightarrow> e = TypeError"
  by (simp add: periodTrade_def Let_def split: option.splits)

lemma periodTrade_no_world:
  "find (\<lambda>d. ptCode d = world) (periodData data p) = None \<Longrightarrow>
     periodTrade partners data p = ([], Inl TypeError)"
  by (simp add: periodTrade_def)

lemma updateChart_no_world:
  assumes "p \<in> set (getPeriods data)"
    and "find (\<lambda>d. ptCode d = world) (periodData data p) = None"
  shows "snd (updateChart data X Y) = Inl TypeError"
proof -
  let ?partners = "Set_delete ''World'' (new_Set (map ptTitle data))"
  let ?r = "map_periods (periodTrade ?partners data) (getPeriods data)"
  have "snd (periodTrade ?partners data p) = Inl TypeError"
    using assms(2) by (simp add: periodTrade_no_world)
  with assms(1) obtain e where e: "snd ?r = Inl e"
    using map_periods_Inl by blast
  then obtain q where "snd (periodTrade ?partners data q) = Inl e"
    using map_periods_error_source by blast
  then have "e = TypeError" by (rule periodTrade_error)
  with e have "snd ?r = Inl TypeError" by simp
  then show ?thesis
    by (cases ?r) (simp add: updateChart_def)
qed

section \<open>Properties of updateChart\<close>












lemma updateChart_Inr:
  assumes "updateChart data X Y = (ws, Inr ch)"
  shows "stack_keys ch = Set_add ''Other'' (Set_delete ''World'' (new_Set (map ptTitle data)))"
    and "stack_offset ch = stackOffsetNone" and "stack_order ch = stackOrderNone"
    and "chart_X ch = X" and "chart_Y ch = Y"
    and "map (\<lambda>p. snd (periodTrade (Set_delete ''World'' (new_Set (map ptTitle data))) data p))
           (getPeriods data) = map Inr (stack_data ch)"
    and "ws = concat (map (\<lambda>p. fst (periodTrade
           (Set_delete ''World'' (new_Set (map ptTitle data))) data p)) (getPeriods data))"
proof -
  let ?partners = "Set_delete ''World'' (new_Set (map ptTitle data))"
  obtain ws' r where m: "map_periods (periodTrade ?partners data) (getPeriods data) = (ws', r)"
    by (cases "map_periods (periodTrade ?partners data) (getPeriods data)")
  with assms obtain rows where r: "r = Inr rows" and ws: "ws' = ws"
    and ch: "ch = \<lparr>stack_keys = Set_add ''Other'' ?partners, stack_offset = stackOffsetNone,
      stack_order = stackOrderNone, stack_data = rows, chart_X = X, chart_Y = Y\<rparr>"
    by (cases r) (auto simp: updateChart_def)
  from ch show "stack_keys ch = Set_add ''Other'' ?partners"
    and "stack_offset ch = stackOffsetNone" and "stack_order ch = stackOrderNone"
    and "chart_X ch = X" and "chart_Y ch = Y"
    by simp_all
  from map_periods_Inr [of "periodTrade ?partners data" "getPeriods data" ws rows] m r ws ch
  show "map (\<lambda>p. snd (periodTrade ?partners data p)) (getPeriods data) = map Inr (stack_data ch)"
    and "ws = concat (map (\<lambda>p. fst (periodTrade ?partners data p)) (getPeriods data))"
    by simp_all
qed







lemmas eval_chart =
  eval_periods updateChart_def periodTrade_def partnerTrade_def assign_partner_def world_def
  js_sub_def round_double_numeral











lemma getPeriods_sample_shared_title:
  "getPeriods sample_shared_title = [Some (year_start 2020)]"
  by (simp add: sample_shared_title_def eval_periods)


lemma partners_sample_shared_title:
  "Set_delete ''World'' (new_Set (map ptTitle sample_shared_title)) = [''Asia'']"
  by (simp add: sample_shared_title_def eval_periods)


text \<open>
  C8 (amended). For every dataset that is rendered, the keys given to the stack are the
  distinct partner titles of the records in order of first appearance, without \<open>World\<close>,
  and with \<open>Other\<close> added to that set: as the last key when no record is titled \<open>Other\<close>,
  and otherwise where that title first appeared. The stack is set to \<open>stackOrderNone\<close>
  and \<open>stackOffsetNone\<close>.
\<close>

theorem stack_keys_order:
  assumes "updateChart data X Y = (ws, Inr ch)"
  shows "stack_keys ch =
      (let titles = filter (\<lambda>t. t \<noteq> ''World'') (rev (remdups (rev (map ptTitle data))))
       in if ''Other'' \<in> set titles then titles else titles @ [''Other''])
    \<and> stack_order ch = stackOrderNone \<and> stack_offset ch = stackOffsetNone"
  using updateChart_Inr(1-3) [OF assms]
  by (simp add: Set_add_def Set_has_def Set_delete_def new_Set_first_occurrences Let_def)

lemma updateChart_sample_residual:
  "updateChart sample_residual X Y =
     ([], Inr \<lparr>stack_keys = [''Canada'', ''China'', ''Other''],
        stack_offset = stackOffsetNone, stack_order = stackOrderNone,
        stack_data = [foldl (assign_partner sample_residual)
          [''period'' \<mapsto> VDate (Some (year_start 2020)), ''Other'' \<mapsto> VNum (Num 50)]
          [''Canada'', ''China'']],
        chart_X = X, chart_Y = Y\<rparr>)"
  by (simp add: eval_chart sample_residual_def)

theorem stack_keys_order_witness:
  "\<not> isl (snd (updateChart sample_residual
      (X_scale (getPeriods sample_residual)) (Y_scale sample_residual)))
   \<and> stack_keys (projr (snd (updateChart sample_residual
        (X_scale (getPeriods sample_residual)) (Y_scale sample_residual))))
     = [''Canada'', ''China'', ''Other'']
   \<and> stack_order (projr (snd (updateChart sample_residual
        (X_scale (getPeriods sample_residual)) (Y_scale sample_residual)))) = stackOrderNone
   \<and> stack_offset (projr (snd (updateChart sample_residual
        (X_scale (getPeriods sample_residual)) (Y_scale sample_residual)))) = stackOffsetNone"
proof -
  let ?X = "X_scale (getPeriods sample_residual)" and ?Y = "Y_scale sample_residual"
  obtain ch where run: "updateChart sample_residual ?X ?Y = ([], Inr ch)"
    using updateChart_sample_residual by blast
  have "filter (\<lambda>t. t \<noteq> ''World'') (rev (remdups (rev (map ptTitle sample_residual))))
      = [''Canada'', ''China'']"
    by (simp add: sample_residual_def)
  with stack_keys_order [OF run] have
    "stack_keys ch = [''Canada'', ''China'', ''Other'']
     \<and> stack_order ch = stackOrderNone \<and> stack_offset ch = stackOffsetNone"
    by simp
  with run show ?thesis by simp
qed

theorem other_title_counterexample:
  "\<not> isl (snd (updateChart sample_other_title
      (X_scale (getPeriods sample_other_title)) (Y_scale sample_other_title)))
   \<and> stack_keys (projr (snd (updateChart sample_other_title
        (X_scale (getPeriods sample_other_title)) (Y_scale sample_other_title))))
     = [''Other'', ''Canada'']
   \<and> last (stack_keys (projr (snd (updateChart sample_other_title
        (X_scale (getPeriods sample_other_title)) (Y_scale sample_other_title)))))
     \<noteq> ''Other''"
  by (simp add: eval_chart sample_other_title_def)

section \<open>The backfill loop\<close>


lemma slice_last_5: "slice (- 5) None xs = drop (length xs - 5) xs"
  using slice_minus [of 5 xs] by simp

lemma slice_but_last_5: "slice 0 (Some (- 5)) xs = take (length xs - 5) xs"
  using slice_0_minus [of 5 xs] by simp

lemma batches_Nil: "batches [] = []"
  by (simp add: batches.simps)

lemma batches_unfold:
  "xs \<noteq> [] \<Longrightarrow> batches xs = drop (length xs - 5) xs # batches (take (length xs - 5) xs)"
  by (subst batches.simps) (simp add: slice_last_5 slice_but_last_5)

lemma concat_rev_batches: "concat (rev (batches xs)) = xs"
proof (induction xs rule: batches.induct)
  case (1 xs)
  show ?case
  proof (cases "xs = []")
    case True
    then show ?thesis by (simp add: batches_Nil)
  next
    case False
    with 1 have "concat (rev (batches (take (length xs - 5) xs))) = take (length xs - 5) xs"
      by (simp add: slice_but_last_5)
    with False show ?thesis by (simp add: batches_unfold)
  qed
qed

lemma batch_sizes:
  "(\<forall>b\<in>set (batches xs). b \<noteq> [] \<and> length b \<le> 5)
   \<and> (\<forall>b\<in>set (butlast (batches xs)). length b = 5)"
proof (induction xs rule: batches.induct)
  case (1 xs)
  show ?case
  proof (cases "xs = []")
    case True
    then show ?thesis by (simp add: batches_Nil)
  next
    case False
    define b where "b = drop (length xs - 5) xs"
    define bs where "bs = batches (take (length xs - 5) xs)"
    from False have pos: "0 < length xs" by simp
    have IH: "(\<forall>c\<in>set bs. c \<noteq> [] \<and> length c \<le> 5)
        \<and> (\<forall>c\<in>set (butlast bs). length c = 5)"
      using "1.IH" [OF pos] unfolding slice_but_last_5 bs_def .
    have unf: "batches xs = b # bs"
      unfolding b_def bs_def using False by (rule batches_unfold)
    have "\<not> length xs \<le> length xs - 5"
      using pos by arith
    then have b: "b \<noteq> []" "length b \<le> 5"
      by (simp_all add: b_def)
    have full: "length b = 5" if "bs \<noteq> []"
    proof (rule ccontr)
      assume "length b \<noteq> 5"
      then have "length xs \<le> 5" by (simp add: b_def)
      then have "bs = []" by (simp add: bs_def batches_Nil)
      with that show False by simp
    qed
    from IH b have all: "\<forall>c\<in>set (b # bs). c \<noteq> [] \<and> length c \<le> 5"
      by simp
    from IH full have "\<forall>c\<in>set (butlast (b # bs)). length c = 5"
      by simp
    with all show ?thesis unfolding unf by (rule conjI)
  qed
qed

lemma draw_requests: "requests (snd (draw r pg)) = requests pg"
  by (cases r rule: prod.exhaust; cases "snd r") (simp_all add: draw_def split: sum.splits)

lemma getAllDataFor_requests:
  "requests (snd (getAllDataFor net HScode partners periods pg))
     = requests pg @ [URLSearchParams HScode partners periods]"
  by (simp add: getAllDataFor_def Let_def split: option.splits)

lemma backfill_requests:
  "\<exists>k\<le>length (batches unqueried).
     requests (snd (backfill net HScode X Y unqueried sourceData pg))
       = requests pg
         @ map (\<lambda>b. URLSearchParams HScode (Array b) (Str ''all'')) (take k (batches unqueried))
     \<and> (\<not> isl (fst (backfill net HScode X Y unqueried sourceData pg))
          \<longrightarrow> k = length (batches unqueried))"
proof (induction net HScode X Y unqueried sourceData pg rule: backfill.induct)
  case (1 net HScode X Y unqueried sourceData pg)
  let ?q = "\<lambda>b. URLSearchParams HScode (Array b) (Str ''all'')"
  show ?case
  proof (cases "unqueried = []")
    case True
    then show ?thesis
      by (simp add: backfill.simps [of _ _ _ _ "[]"] batches_Nil)
  next
    case False
    let ?b = "slice (- 5) None unqueried" and ?rest = "slice 0 (Some (- 5)) unqueried"
    have bs: "batches unqueried = ?b # batches ?rest"
      using False by (subst batches.simps) simp
    obtain r pg1 where fetch: "getAllDataFor net HScode (Array ?b) (Str ''all'') pg = (r, pg1)"
      by (cases "getAllDataFor net HScode (Array ?b) (Str ''all'') pg")
    have req1: "requests pg1 = requests pg @ [?q ?b]"
      using getAllDataFor_requests [of net HScode "Array ?b" "Str ''all''" pg] fetch by simp
    show ?thesis
    proof (cases r)
      case (Inl e)
      with fetch False have "backfill net HScode X Y unqueried sourceData pg = (Inl e, pg1)"
        by (subst backfill.simps) simp
      with req1 bs have "1 \<le> length (batches unqueried)
          \<and> requests (snd (backfill net HScode X Y unqueried sourceData pg))
            = requests pg @ map ?q (take 1 (batches unqueried))
          \<and> (\<not> isl (fst (backfill net HScode X Y unqueried sourceData pg))
              \<longrightarrow> 1 = length (batches unqueried))"
        by simp
      then show ?thesis by blast
    next
      case (Inr newData)
      let ?src = "uniqueData (sourceData @ newData)"
      obtain r2 pg2 where dr: "draw (updateChart ?src X Y) pg1 = (r2, pg2)"
        by (cases "draw (updateChart ?src X Y) pg1")
      have req2: "requests pg2 = requests pg @ [?q ?b]"
        using draw_requests [of "updateChart ?src X Y" pg1] dr req1 by simp
      show ?thesis
      proof (cases r2)
        case (Inl e)
        with fetch Inr dr False have
          "backfill net HScode X Y unqueried sourceData pg = (Inl e, pg2)"
          by (subst backfill.simps) simp
        with req2 bs have "1 \<le> length (batches unqueried)
            \<and> requests (snd (backfill net HScode X Y unqueried sourceData pg))
              = requests pg @ map ?q (take 1 (batches unqueried))
            \<and> (\<not> isl (fst (backfill net HScode X Y unqueried sourceData pg))
                \<longrightarrow> 1 = length (batches unqueried))"
          by simp
        then show ?thesis by blast
      next
        case (Inr u)
        with fetch \<open>r = Inr newData\<close> dr False have step:
          "backfill net HScode X Y unqueried sourceData pg
             = backfill net HScode X Y ?rest ?src pg2"
          by (subst backfill.simps) simp
        from False have pos: "0 < length unqueried" by simp
        from "1.IH" [OF pos refl refl fetch [symmetric] \<open>r = Inr newData\<close> refl
            dr [symmetric] Inr]
        obtain k where k: "k \<le> length (batches ?rest)"
          and reqs: "requests (snd (backfill net HScode X Y ?rest ?src pg2))
              = requests pg2 @ map ?q (take k (batches ?rest))"
          and fin: "\<not> isl (fst (backfill net HScode X Y ?rest ?src pg2))
              \<longrightarrow> k = length (batches ?rest)"
          by auto
        from k reqs fin req2 bs step have "Suc k \<le> length (batches unqueried)
            \<and> requests (snd (backfill net HScode X Y unqueried sourceData pg))
              = requests pg @ map ?q (take (Suc k) (batches unqueried))
            \<and> (\<not> isl (fst (backfill net HScode X Y unqueried sourceData pg))
                \<longrightarrow> Suc k = length (batches unqueried))"
          by simp
        then show ?thesis by blast
      qed
    qed
  qed
qed

lemma length_batches: "length (batches xs) = (length xs + 4) div 5"
proof (induction xs rule: batches.induct)
  case (1 xs)
  show ?case
  proof (cases "xs = []")
    case True
    then show ?thesis by (simp add: batches_Nil)
  next
    case False
    then have pos: "0 < length xs" by simp
    have "length (batches (take (length xs - 5) xs)) = (length xs - 5 + 4) div 5"
      using "1.IH" [OF pos] unfolding slice_but_last_5 by simp
    moreover have "Suc ((length xs - 5 + 4) div 5) = (length xs + 4) div 5"
      using pos by arith
    ultimately show ?thesis using False by (simp add: batches_unfold)
  qed
qed

text \<open>
  C7. The backfill loop is a total function of the queue: it ends after at most one
  iteration per batch, \<open>(n + 4) div 5\<close> of them for a queue of \<open>n\<close> partners. Its
  iterations request the batches of the queue in order, as far as no request or redraw
  fails, and all of them when it ends without an error. The first batch is the last five
  elements of the queue (the whole queue when it has fewer), and the loop goes on with the
  queue without them and does nothing on the empty queue; so the batches, taken in reverse
  order, make up the queue, every batch is non-empty and only the last one may hold fewer
  than five partners.
\<close>

theorem backfill_batches:
  "(\<exists>k\<le>length (batches unqueried).
      requests (snd (backfill net HScode X Y unqueried sourceData pg))
        = requests pg
          @ map (\<lambda>b. URLSearchParams HScode (Array b) (Str ''all'')) (take k (batches unqueried))
      \<and> (\<not> isl (fst (backfill net HScode X Y unqueried sourceData pg))
           \<longrightarrow> k = length (batches unqueried)))
   \<and> batches unqueried =
       (if unqueried = [] then []
        else drop (length unqueried - 5) unqueried
             # batches (take (length unqueried - 5) unqueried))
   \<and> length (batches unqueried) = (length unqueried + 4) div 5
   \<and> concat (rev (batches unqueried)) = unqueried
   \<and> (\<forall>b\<in>set (batches unqueried). b \<noteq> [] \<and> length b \<le> 5)
   \<and> (\<forall>b\<in>set (butlast (batches unqueried)). length b = 5)"
proof (intro conjI)
  show "\<exists>k\<le>length (batches unqueried).
      requests (snd (backfill net HScode X Y unqueried sourceData pg))
        = requests pg
          @ map (\<lambda>b. URLSearchParams HScode (Array b) (Str ''all'')) (take k (batches unqueried))
      \<and> (\<not> isl (fst (backfill net HScode X Y unqueried sourceData pg))
           \<longrightarrow> k = length (batches unqueried))"
    by (rule backfill_requests)
  show "batches unqueried =
       (if unqueried = [] then []
        else drop (length unqueried - 5) unqueried
             # batches (take (length unqueried - 5) unqueried))"
    by (simp add: batches_Nil batches_unfold)
  show "length (batches unqueried) = (length unqueried + 4) div 5"
    by (rule length_batches)
  show "concat (rev (batches unqueried)) = unqueried"
    by (rule concat_rev_batches)
  show "\<forall>b\<in>set (batches unqueried). b \<noteq> [] \<and> length b \<le> 5"
    using batch_sizes [of unqueried] by (rule conjunct1)
  show "\<forall>b\<in>set (butlast (batches unqueried)). length b = 5"
    using batch_sizes [of unqueried] by (rule conjunct2)
qed

lemma batches_seven: "batches [1, 2, 3, 4, 5, 6, 7 :: int] = [[3, 4, 5, 6, 7], [1, 2]]"
  by (simp add: batches_unfold batches_Nil)

lemma backfill_seven:
  "backfill (\<lambda>n ps. Some []) ''0901'' (X_scale []) (Y_scale []) [1, 2, 3, 4, 5, 6, 7] []
      \<lparr>requests = [], console_log = [], drawn = [], loading = True\<rparr>
   = (Inr [],
      \<lparr>requests = [URLSearchParams ''0901'' (Array [3, 4, 5, 6, 7]) (Str ''all''),
                   URLSearchParams ''0901'' (Array [1, 2]) (Str ''all'')],
       console_log = [],
       drawn = [\<lparr>stack_keys = [''Other''], stack_offset = stackOffsetNone,
                  stack_order = stackOrderNone, stack_data = [],
                  chart_X = X_scale [], chart_Y = Y_scale []\<rparr>,
                \<lparr>stack_keys = [''Other''], stack_offset = stackOffsetNone,
                  stack_order = stackOrderNone, stack_data = [],
                  chart_X = X_scale [], chart_Y = Y_scale []\<rparr>],
       loading = True\<rparr>)"
  by (simp add: backfill.simps slice_def getAllDataFor_def draw_def updateChart_def
      uniqueData_def getPeriods_def new_Set_def Set_add_def Set_has_def Set_delete_def)

theorem backfill_batches_witness:
  "batches [1, 2, 3, 4, 5, 6, 7 :: int] = [[3, 4, 5, 6, 7], [1, 2]]
   \<and> \<not> isl (fst (backfill (\<lambda>n ps. Some []) ''0901'' (X_scale []) (Y_scale [])
        [1, 2, 3, 4, 5, 6, 7] [] \<lparr>requests = [], console_log = [], drawn = [], loading = True\<rparr>))
   \<and> map (\<lambda>ps. map_of ps ''p'')
        (requests (snd (backfill (\<lambda>n ps. Some []) ''0901'' (X_scale []) (Y_scale [])
          [1, 2, 3, 4, 5, 6, 7] []
          \<lparr>requests = [], console_log = [], drawn = [], loading = True\<rparr>)))
     = [Some ''3,4,5,6,7'', Some ''1,2'']"
proof -
  let ?run = "backfill (\<lambda>n ps. Some []) ''0901'' (X_scale []) (Y_scale [])
     [1, 2, 3, 4, 5, 6, 7] [] \<lparr>requests = [], console_log = [], drawn = [], loading = True\<rparr>"
  have ok: "\<not> isl (fst ?run)"
    by (simp add: backfill_seven)
  let ?pg = "\<lparr>requests = [], console_log = [], drawn = [], loading = True\<rparr>"
  from backfill_batches [of "[1, 2, 3, 4, 5, 6, 7]" "\<lambda>n ps. Some []" "''0901''"
      "X_scale []" "Y_scale []" "[]" ?pg, THEN conjunct1]
  obtain k where "requests (snd ?run)
      = requests ?pg @ map (\<lambda>b. URLSearchParams ''0901'' (Array b) (Str ''all''))
          (take k (batches [1, 2, 3, 4, 5, 6, 7]))"
    and "\<not> isl (fst ?run) \<longrightarrow> k = length (batches [1, 2, 3, 4, 5, 6, 7 :: int])"
    by blast
  with ok have "requests (snd ?run)
      = map (\<lambda>b. URLSearchParams ''0901'' (Array b) (Str ''all''))
          (batches [1, 2, 3, 4, 5, 6, 7])"
    by simp
  then have "map (\<lambda>ps. map_of ps ''p'') (requests (snd ?run))
      = [Some ''3,4,5,6,7'', Some ''1,2'']"
    unfolding batches_seven
    by (simp add: URLSearchParams_def Number_toString_def digits.simps digit_char_def)
  with ok batches_seven show ?thesis by simp
qed

section \<open>The scales\<close>

lemma Math_min_Min: "xs \<noteq> [] \<Longrightarrow> Math_min xs = Num (Min (set xs))"
proof (induction xs)
  case Nil
  then show ?case by simp
next
  case (Cons x xs)
  then show ?case by (cases "xs = []") (simp_all add: min.commute)
qed

lemma Math_max_Max: "xs \<noteq> [] \<Longrightarrow> Math_max xs = Num (Max (set xs))"
proof (induction xs)
  case Nil
  then show ?case by simp
next
  case (Cons x xs)
  then show ?case by (cases "xs = []") (simp_all add: max.commute)
qed

lemma TimeFromYear_in_range:
  assumes "0 \<le> y" and "y \<le> 9999"
  shows "\<bar>TimeFromYear y\<bar> \<le> 8640000000000000"
proof -
  have "TimeFromYear 0 \<le> TimeFromYear y" and "TimeFromYear y \<le> TimeFromYear 9999"
    using assms by (simp_all add: TimeFromYear_le_iff)
  moreover have "TimeFromYear 0 = - 62167219200000" and "TimeFromYear 9999 = 253370764800000"
    by (simp_all add: TimeFromYear_def DayFromYear_def msPerDay_def)
  ultimately show ?thesis by simp
qed

lemma mono_TimeFromYear: "mono TimeFromYear"
  by (simp add: mono_def TimeFromYear_le_iff)

lemma dateRange_years:
  assumes "data \<noteq> []" and "\<forall>d\<in>set data. 0 \<le> period d \<and> period d \<le> 9999"
  shows "dateRange (getPeriods data)
      = [Num (TimeFromYear (Min (period ` set data))), Num (TimeFromYear (Max (period ` set data)))]"
proof -
  let ?S = "period ` set data"
  have fin: "finite ?S" and ne: "?S \<noteq> {}" using assms(1) by simp_all
  have keys: "map ToNumber (getPeriods data) = map TimeFromYear (sorted_list_of_set ?S)"
    unfolding getPeriods_years [OF assms(2)] by (simp add: ToNumber_year_start)
  have ne': "map TimeFromYear (sorted_list_of_set ?S) \<noteq> []"
    using fin ne by simp
  have img: "set (map TimeFromYear (sorted_list_of_set ?S)) = TimeFromYear ` ?S"
    using fin by simp
  have mn: "Min (TimeFromYear ` ?S) = TimeFromYear (Min ?S)"
    using mono_Min_commute [OF mono_TimeFromYear fin ne] by simp
  have mx: "Max (TimeFromYear ` ?S) = TimeFromYear (Max ?S)"
    using mono_Max_commute [OF mono_TimeFromYear fin ne] by simp
  have "Min ?S \<in> ?S" and "Max ?S \<in> ?S"
    using fin ne by (rule Min_in, rule Max_in)
  with assms(2) have "0 \<le> Min ?S \<and> Min ?S \<le> 9999" and "0 \<le> Max ?S \<and> Max ?S \<le> 9999"
    by auto
  then have "\<bar>TimeFromYear (Min ?S)\<bar> \<le> 8640000000000000"
    and "\<bar>TimeFromYear (Max ?S)\<bar> \<le> 8640000000000000"
    by (simp_all add: TimeFromYear_in_range)
  then show ?thesis
    unfolding dateRange_def keys Math_min_Min [OF ne'] Math_max_Max [OF ne'] img mn mx
    by simp
qed

lemma maxTradeValue_Max:
  assumes "\<exists>d\<in>set data. ptCode d = world"
  shows "maxTradeValue data = Num (Max (TradeValue ` {d \<in> set data. ptCode d = world}))"
proof -
  from assms have "map TradeValue (filter (\<lambda>d. ptCode d = world) data) \<noteq> []"
    by (simp add: filter_empty_conv)
  from Math_max_Max [OF this] show ?thesis
    by (simp add: maxTradeValue_def)
qed

lemma draw_drawn:
  "ch \<in> set (drawn (snd (draw (updateChart data X Y) pg))) \<Longrightarrow>
     ch \<in> set (drawn pg) \<or> chart_X ch = X \<and> chart_Y ch = Y"
proof -
  assume mem: "ch \<in> set (drawn (snd (draw (updateChart data X Y) pg)))"
  obtain ws r where u: "updateChart data X Y = (ws, r)" by (cases "updateChart data X Y")
  show ?thesis
  proof (cases r)
    case (Inl e)
    with u mem show ?thesis by (simp add: draw_def)
  next
    case (Inr c)
    with u have "chart_X c = X" "chart_Y c = Y"
      using updateChart_Inr(4,5) [of data X Y ws c] by simp_all
    with u Inr mem show ?thesis by (auto simp: draw_def)
  qed
qed

lemma getAllDataFor_drawn:
  "drawn (snd (getAllDataFor net HScode partners periods pg)) = drawn pg"
  by (simp add: getAllDataFor_def Let_def split: option.splits)

lemma backfill_drawn:
  "ch \<in> set (drawn (snd (backfill net HScode X Y unqueried sourceData pg))) \<Longrightarrow>
     ch \<in> set (drawn pg) \<or> chart_X ch = X \<and> chart_Y ch = Y"
proof (induction net HScode X Y unqueried sourceData pg rule: backfill.induct)
  case (1 net HScode X Y unqueried sourceData pg)
  show ?case
  proof (cases "unqueried = []")
    case True
    with "1.prems" show ?thesis by (simp add: backfill.simps [of _ _ _ _ "[]"])
  next
    case False
    let ?b = "slice (- 5) None unqueried" and ?rest = "slice 0 (Some (- 5)) unqueried"
    obtain r pg1 where fetch: "getAllDataFor net HScode (Array ?b) (Str ''all'') pg = (r, pg1)"
      by (cases "getAllDataFor net HScode (Array ?b) (Str ''all'') pg")
    have d1: "drawn pg1 = drawn pg"
      using getAllDataFor_drawn [of net HScode "Array ?b" "Str ''all''" pg] fetch by simp
    show ?thesis
    proof (cases r)
      case (Inl e)
      with fetch False have "backfill net HScode X Y unqueried sourceData pg = (Inl e, pg1)"
        by (subst backfill.simps) simp
      with "1.prems" d1 show ?thesis by simp
    next
      case (Inr newData)
      let ?src = "uniqueData (sourceData @ newData)"
      obtain r2 pg2 where dr: "draw (updateChart ?src X Y) pg1 = (r2, pg2)"
        by (cases "draw (updateChart ?src X Y) pg1")
      have d2: "c \<in> set (drawn pg2) \<Longrightarrow> c \<in> set (drawn pg) \<or> chart_X c = X \<and> chart_Y c = Y"
        for c
        using draw_drawn [of c ?src X Y pg1] dr d1 by simp
      show ?thesis
      proof (cases r2)
        case (Inl e)
        with fetch Inr dr False have
          "backfill net HScode X Y unqueried sourceData pg = (Inl e, pg2)"
          by (subst backfill.simps) simp
        with "1.prems" d2 show ?thesis by simp
      next
        case (Inr u)
        with fetch \<open>r = Inr newData\<close> dr False have step:
          "backfill net HScode X Y unqueried sourceData pg
             = backfill net HScode X Y ?rest ?src pg2"
          by (subst backfill.simps) simp
        from False have pos: "0 < length unqueried" by simp
        from "1.prems" step have
          "ch \<in> set (drawn (snd (backfill net HScode X Y ?rest ?src pg2)))"
          by simp
        from "1.IH" [OF pos refl refl fetch [symmetric] \<open>r = Inr newData\<close> refl
            dr [symmetric] Inr this]
        have "ch \<in> set (drawn pg2) \<or> chart_X ch = X \<and> chart_Y ch = Y" .
        with d2 show ?thesis by blast
      qed
    qed
  qed
qed

lemma addComtradeData_drawn:
  assumes "net 0 (URLSearchParams HScode (Array [world, canada]) (Str ''all'')) = Some response"
    and "ch \<in> set (drawn (snd (addComtradeData net HScode)))"
  shows "chart_X ch = X_scale (getPeriods (uniqueData response))
    \<and> chart_Y ch = Y_scale (uniqueData response)"
proof -
  let ?pg0 = "\<lparr>requests = [], console_log = [], drawn = [], loading = True\<rparr>"
  let ?src = "uniqueData response"
  let ?X = "X_scale (getPeriods ?src)" and ?Y = "Y_scale ?src"
  let ?pg1 = "?pg0\<lparr>requests := requests ?pg0
      @ [URLSearchParams HScode (Array [world, canada]) (Str ''all'')]\<rparr>"
  have fetch: "getAllDataFor net HScode (Array [world, canada]) (Str ''all'') ?pg0
      = (Inr response, ?pg1)"
    using assms(1) by (simp add: getAllDataFor_def)
  obtain r2 pg2 where dr: "draw (updateChart ?src ?X ?Y) ?pg1 = (r2, pg2)"
    by (cases "draw (updateChart ?src ?X ?Y) ?pg1")
  have d2: "c \<in> set (drawn pg2) \<Longrightarrow> chart_X c = ?X \<and> chart_Y c = ?Y" for c
    using draw_drawn [of c ?src ?X ?Y ?pg1] dr by simp
  show ?thesis
  proof (cases r2)
    case (Inl e)
    with fetch dr have "addComtradeData net HScode = (Inl e, pg2)"
      by (simp add: addComtradeData_def)
    with assms(2) d2 show ?thesis by simp
  next
    case (Inr u)
    let ?ps = "Array (slice (- 1) None (map date2period (getPeriods ?src)))"
    obtain r3 pg3 where f2: "getAllDataFor net HScode (Str ''all'') ?ps pg2 = (r3, pg3)"
      by (cases "getAllDataFor net HScode (Str ''all'') ?ps pg2")
    have d3: "drawn pg3 = drawn pg2"
      using getAllDataFor_drawn [of net HScode "Str ''all''" ?ps pg2] f2 by simp
    show ?thesis
    proof (cases r3)
      case (Inl e)
      with fetch dr Inr f2 have "addComtradeData net HScode = (Inl e, pg3)"
        by (simp add: addComtradeData_def)
      with assms(2) d2 d3 show ?thesis by simp
    next
      case newData: (Inr newData)
      show ?thesis
      proof (cases "unqueriedPartners newData")
        case (Inl e)
        with fetch dr Inr f2 newData have "addComtradeData net HScode = (Inl e, pg3)"
          by (simp add: addComtradeData_def)
        with assms(2) d2 d3 show ?thesis by simp
      next
        case unq: (Inr unqueried)
        obtain r4 pg4 where b: "backfill net HScode ?X ?Y unqueried ?src pg3 = (r4, pg4)"
          by (cases "backfill net HScode ?X ?Y unqueried ?src pg3")
        have d4: "c \<in> set (drawn pg4) \<Longrightarrow> chart_X c = ?X \<and> chart_Y c = ?Y" for c
          using backfill_drawn [of c net HScode ?X ?Y unqueried ?src pg3] b d2 d3 by auto
        from fetch dr Inr f2 newData unq b have
          "drawn (snd (addComtradeData net HScode)) = drawn pg4"
          by (cases r4) (simp_all add: addComtradeData_def)
        with assms(2) d4 show ?thesis by simp
      qed
    qed
  qed
qed

text \<open>
  C9. When the first response arrives, every chart that \<open>addComtradeData\<close> draws, the
  first one and the one of every later update, has the two scales made from the first
  (deduplicated) response: no later merge changes them. The time scale's domain runs from
  the least to the greatest time value of the periods of that response (for years between
  0 and 9999: from the start of the least year to the start of the greatest), and the value
  scale's domain from 0 to the greatest trade value of its world records.
\<close>

theorem scales_fixed_by_first_response:
  fixes response sourceData :: "TradeRecord list"
  defines "sourceData \<equiv> uniqueData response"
  assumes "net 0 (URLSearchParams HScode (Array [world, canada]) (Str ''all'')) = Some response"
  shows "(\<forall>ch\<in>set (drawn (snd (addComtradeData net HScode))).
            chart_X ch = X_scale (getPeriods sourceData) \<and> chart_Y ch = Y_scale sourceData)
    \<and> (getPeriods sourceData \<noteq> [] \<longrightarrow>
          scale_domain (X_scale (getPeriods sourceData))
            = [new_Date (Num (Min (ToNumber ` set (getPeriods sourceData)))),
               new_Date (Num (Max (ToNumber ` set (getPeriods sourceData))))])
    \<and> (sourceData \<noteq> [] \<and> (\<forall>d\<in>set sourceData. 0 \<le> period d \<and> period d \<le> 9999) \<longrightarrow>
          scale_domain (X_scale (getPeriods sourceData))
            = [Num (TimeFromYear (Min (period ` set sourceData))),
               Num (TimeFromYear (Max (period ` set sourceData)))])
    \<and> ((\<exists>d\<in>set sourceData. ptCode d = world) \<longrightarrow>
          scale_domain (Y_scale sourceData)
            = [Num 0, Num (Max (TradeValue ` {d \<in> set sourceData. ptCode d = world}))])"
proof (intro conjI ballI impI)
  fix ch assume "ch \<in> set (drawn (snd (addComtradeData net HScode)))"
  with assms(2) have "chart_X ch = X_scale (getPeriods (uniqueData response))
      \<and> chart_Y ch = Y_scale (uniqueData response)"
    by (rule addComtradeData_drawn)
  then show "chart_X ch = X_scale (getPeriods sourceData)" and "chart_Y ch = Y_scale sourceData"
    by (simp_all add: sourceData_def)
next
  assume "getPeriods sourceData \<noteq> []"
  then have ne: "map ToNumber (getPeriods sourceData) \<noteq> []" by simp
  show "scale_domain (X_scale (getPeriods sourceData))
      = [new_Date (Num (Min (ToNumber ` set (getPeriods sourceData)))),
         new_Date (Num (Max (ToNumber ` set (getPeriods sourceData))))]"
    by (simp add: X_scale_def dateRange_def Math_min_Min [OF ne] Math_max_Max [OF ne])
next
  assume "sourceData \<noteq> [] \<and> (\<forall>d\<in>set sourceData. 0 \<le> period d \<and> period d \<le> 9999)"
  then show "scale_domain (X_scale (getPeriods sourceData))
      = [Num (TimeFromYear (Min (period ` set sourceData))),
         Num (TimeFromYear (Max (period ` set sourceData)))]"
    by (simp add: X_scale_def dateRange_years)
next
  assume "\<exists>d\<in>set sourceData. ptCode d = world"
  then show "scale_domain (Y_scale sourceData)
      = [Num 0, Num (Max (TradeValue ` {d \<in> set sourceData. ptCode d = world}))]"
    by (simp add: Y_scale_def maxTradeValue_Max)
qed

lemmas eval_unique = uniqueData_def Set_has_def Set_add_def uid_eq_iff pair_key_def

lemma uniqueData_sample_first: "uniqueData sample_first = sample_first"
  by (simp add: eval_unique sample_first_def)

lemma getPeriods_sample_first:
  "getPeriods sample_first = [Some (year_start 2019), Some (year_start 2020)]"
  by (simp add: eval_periods sample_first_def)

lemma X_scale_sample_first:
  "X_scale (getPeriods sample_first)
     = \<lparr>scale_domain = [Num (TimeFromYear 2019), Num (TimeFromYear 2020)],
        scale_range = [40, 595]\<rparr>"
  by (simp add: getPeriods_sample_first X_scale_def dateRange_def ToNumber_year_start
      TimeFromYear_in_range TimeFromYear_le_iff min_def max_def width_def margin_def)

lemma Y_scale_sample_first:
  "Y_scale sample_first = \<lparr>scale_domain = [Num 0, Num 100], scale_range = [230, 5]\<rparr>"
  by (simp add: Y_scale_def maxTradeValue_def sample_first_def world_def height_def margin_def)

lemma updateChart_sample_first:
  "\<exists>ch. updateChart sample_first X Y = ([], Inr ch) \<and> length (stack_data ch) = 2"
  by (simp add: eval_chart sample_first_def)

lemma unqueriedPartners_sample_ranking: "unqueriedPartners sample_ranking = Inr [124, 156]"
  by (simp add: unqueriedPartners_def sample_ranking_def world_def round_double_numeral)

lemma uniqueData_merged:
  "uniqueData (sample_first @ sample_batch) = sample_first @ sample_batch"
  by (simp add: eval_unique sample_first_def sample_batch_def)

lemma updateChart_merged:
  "\<exists>ch. updateChart (sample_first @ sample_batch) X Y = ([], Inr ch)
     \<and> length (stack_data ch) = 3"
  by (simp add: eval_chart sample_first_def sample_batch_def)

lemma backfill_done: "backfill net HScode X Y [] sourceData pg = (Inr sourceData, pg)"
  by (subst backfill.simps) simp

lemma backfill_step:
  assumes "unqueried \<noteq> []"
    and "net (length (requests pg))
           (URLSearchParams HScode (Array (slice (- 5) None unqueried)) (Str ''all''))
         = Some newData"
    and "updateChart (uniqueData (sourceData @ newData)) X Y = (ws, Inr ch)"
  shows "backfill net HScode X Y unqueried sourceData pg
    = backfill net HScode X Y (slice 0 (Some (- 5)) unqueried) (uniqueData (sourceData @ newData))
        (pg\<lparr>requests := requests pg
              @ [URLSearchParams HScode (Array (slice (- 5) None unqueried)) (Str ''all'')],
            console_log := console_log pg @ ws,
            drawn := drawn pg @ [ch]\<rparr>)"
  using assms by (subst backfill.simps) (simp add: getAllDataFor_def draw_def)

lemma addComtradeData_run:
  fixes response src :: "TradeRecord list" and HScode :: string
    and X :: "int scale" and Y :: "rat scale" and q0 q1 :: params
  defines "src \<equiv> uniqueData response"
  defines "X \<equiv> X_scale (getPeriods src)" and "Y \<equiv> Y_scale src"
  defines "q0 \<equiv> URLSearchParams HScode (Array [world, canada]) (Str ''all'')"
  defines "q1 \<equiv> URLSearchParams HScode (Str ''all'')
      (Array (slice (- 1) None (map date2period (getPeriods src))))"
  assumes "net 0 q0 = Some response"
    and "updateChart src X Y = (ws, Inr ch)"
    and "net 1 q1 = Some newData"
    and "unqueriedPartners newData = Inr unqueried"
    and "backfill net HScode X Y unqueried src
           \<lparr>requests = [q0, q1], console_log = ws, drawn = [ch], loading = True\<rparr>
         = (Inr src', pg)"
  shows "addComtradeData net HScode = (Inr (), pg\<lparr>loading := False\<rparr>)"
  using assms(6-10)
  by (simp add: addComtradeData_def getAllDataFor_def draw_def src_def X_def Y_def q0_def q1_def)

theorem scales_fixed_by_first_response_witness:
  "fst (addComtradeData sample_net ''0901'') = Inr ()
   \<and> map chart_X (drawn (snd (addComtradeData sample_net ''0901'')))
     = [\<lparr>scale_domain = [Num (TimeFromYear 2019), Num (TimeFromYear 2020)],
          scale_range = [40, 595]\<rparr>,
        \<lparr>scale_domain = [Num (TimeFromYear 2019), Num (TimeFromYear 2020)],
          scale_range = [40, 595]\<rparr>]
   \<and> map chart_Y (drawn (snd (addComtradeData sample_net ''0901'')))
     = [\<lparr>scale_domain = [Num 0, Num 100], scale_range = [230, 5]\<rparr>,
        \<lparr>scale_domain = [Num 0, Num 100], scale_range = [230, 5]\<rparr>]
   \<and> map (\<lambda>ch. length (stack_data ch)) (drawn (snd (addComtradeData sample_net ''0901'')))
     = [2, 3]"
proof -
  let ?X = "X_scale (getPeriods sample_first)" and ?Y = "Y_scale sample_first"
  let ?q0 = "URLSearchParams ''0901'' (Array [world, canada]) (Str ''all'')"
  let ?q1 = "URLSearchParams ''0901'' (Str ''all'')
      (Array (slice (- 1) None (map date2period (getPeriods sample_first))))"
  let ?q2 = "URLSearchParams ''0901'' (Array (slice (- 5) None [124, 156])) (Str ''all'')"
  obtain ch1 where c1: "updateChart sample_first ?X ?Y = ([], Inr ch1)"
    and r1: "length (stack_data ch1) = 2"
    using updateChart_sample_first by blast
  obtain ch2 where c2: "updateChart (sample_first @ sample_batch) ?X ?Y = ([], Inr ch2)"
    and r2: "length (stack_data ch2) = 3"
    using updateChart_merged by blast
  let ?pg3 = "\<lparr>requests = [?q0, ?q1], console_log = [], drawn = [ch1], loading = True\<rparr>"
  have "backfill sample_net ''0901'' ?X ?Y [124, 156] sample_first ?pg3
      = backfill sample_net ''0901'' ?X ?Y (slice 0 (Some (- 5)) [124, 156])
          (uniqueData (sample_first @ sample_batch))
          (?pg3\<lparr>requests := requests ?pg3 @ [?q2], console_log := console_log ?pg3 @ [],
             drawn := drawn ?pg3 @ [ch2]\<rparr>)"
    by (rule backfill_step) (simp_all add: sample_net_def uniqueData_merged c2)
  then have loop: "backfill sample_net ''0901'' ?X ?Y [124, 156] sample_first ?pg3
      = (Inr (sample_first @ sample_batch),
         \<lparr>requests = [?q0, ?q1, ?q2], console_log = [], drawn = [ch1, ch2], loading = True\<rparr>)"
    by (simp add: slice_def backfill_done uniqueData_merged)
  have first: "sample_net 0 ?q0 = Some sample_first" and second: "sample_net 1 ?q1 = Some sample_ranking"
    by (simp_all add: sample_net_def)
  have run: "addComtradeData sample_net ''0901''
      = (Inr (), \<lparr>requests = [?q0, ?q1, ?q2], console_log = [], drawn = [ch1, ch2],
           loading = False\<rparr>)"
    using addComtradeData_run [of sample_net "''0901''" sample_first "[]" ch1 sample_ranking
        "[124, 156]" "sample_first @ sample_batch", unfolded uniqueData_sample_first,
        OF first c1 second unqueriedPartners_sample_ranking loop]
    by simp
  from scales_fixed_by_first_response [where net = sample_net and HScode = "''0901''"
      and response = sample_first, OF first, THEN conjunct1, unfolded uniqueData_sample_first]
  have "chart_X ch1 = ?X \<and> chart_Y ch1 = ?Y" and "chart_X ch2 = ?X \<and> chart_Y ch2 = ?Y"
    unfolding run by simp_all
  with run r1 r2 show ?thesis
    by (simp add: X_scale_sample_first Y_scale_sample_first)
qed

section \<open>Missing world records\<close>

lemma addComtradeData_first_chart_fails:
  assumes "net 0 (URLSearchParams HScode (Array [world, canada]) (Str ''all'')) = Some response"
    and "p \<in> set (getPeriods (uniqueData response))"
    and "find (\<lambda>d. ptCode d = world) (periodData (uniqueData response) p) = None"
  shows "fst (addComtradeData net HScode) = Inl TypeError"
    and "drawn (snd (addComtradeData net HScode)) = []"
    and "loading (snd (addComtradeData net HScode))"
proof -
  let ?src = "uniqueData response"
  let ?X = "X_scale (getPeriods ?src)" and ?Y = "Y_scale ?src"
  obtain ws r where u: "updateChart ?src ?X ?Y = (ws, r)"
    by (cases "updateChart ?src ?X ?Y")
  with updateChart_no_world [OF assms(2,3), of ?X ?Y] have "r = Inl TypeError" by simp
  with u assms(1) have "addComtradeData net HScode
      = (Inl TypeError,
         \<lparr>requests = [URLSearchParams HScode (Array [world, canada]) (Str ''all'')],
          console_log = ws, drawn = [], loading = True\<rparr>)"
    by (simp add: addComtradeData_def getAllDataFor_def draw_def)
  then show "fst (addComtradeData net HScode) = Inl TypeError"
    and "drawn (snd (addComtradeData net HScode)) = []"
    and "loading (snd (addComtradeData net HScode))"
    by simp_all
qed

lemma addComtradeData_ranking_fails:
  assumes "net 0 (URLSearchParams HScode (Array [world, canada]) (Str ''all'')) = Some response"
    and "updateChart (uniqueData response) (X_scale (getPeriods (uniqueData response)))
           (Y_scale (uniqueData response)) = (ws, Inr ch)"
    and "net 1 (URLSearchParams HScode (Str ''all'')
           (Array (slice (- 1) None (map date2period (getPeriods (uniqueData response))))))
         = Some newData"
    and "find (\<lambda>d. ptCode d = world) newData = None"
  shows "fst (addComtradeData net HScode) = Inl TypeError"
    and "length (requests (snd (addComtradeData net HScode))) = 2"
    and "loading (snd (addComtradeData net HScode))"
  using assms
  by (simp_all add: addComtradeData_def getAllDataFor_def draw_def unqueriedPartners_def)

text \<open>
  C5. When the records of a period hold no world record, the computation of that period's
  row fails with a TypeError and so does the whole chart update; when the response of the
  ranking pass holds no world record, the ranking fails with a TypeError. Nothing guards,
  skips or handles the missing record: \<open>addComtradeData\<close> itself ends with that
  TypeError, without a chart when the first response lacks the world record of one of its
  periods, and before any backfill request, the loading text still shown, when the ranking
  response lacks it.
\<close>

theorem missing_world_TypeError:
  "(find (\<lambda>d. ptCode d = world) (periodData data p) = None \<longrightarrow>
      periodTrade partners data p = ([], Inl TypeError)
      \<and> (p \<in> set (getPeriods data) \<longrightarrow> snd (updateChart data X Y) = Inl TypeError))
   \<and> (find (\<lambda>d. ptCode d = world) newData = None \<longrightarrow>
      unqueriedPartners newData = Inl TypeError)
   \<and> (net 0 (URLSearchParams HScode (Array [world, canada]) (Str ''all'')) = Some response
      \<and> q \<in> set (getPeriods (uniqueData response))
      \<and> find (\<lambda>d. ptCode d = world) (periodData (uniqueData response) q) = None \<longrightarrow>
      fst (addComtradeData net HScode) = Inl TypeError
      \<and> drawn (snd (addComtradeData net HScode)) = []
      \<and> loading (snd (addComtradeData net HScode)))
   \<and> (net 0 (URLSearchParams HScode (Array [world, canada]) (Str ''all'')) = Some response
      \<and> updateChart (uniqueData response) (X_scale (getPeriods (uniqueData response)))
           (Y_scale (uniqueData response)) = (ws, Inr ch)
      \<and> net 1 (URLSearchParams HScode (Str ''all'')
           (Array (slice (- 1) None (map date2period (getPeriods (uniqueData response))))))
         = Some newData
      \<and> find (\<lambda>d. ptCode d = world) newData = None \<longrightarrow>
      fst (addComtradeData net HScode) = Inl TypeError
      \<and> length (requests (snd (addComtradeData net HScode))) = 2
      \<and> loading (snd (addComtradeData net HScode)))"
proof (intro conjI impI)
  assume "find (\<lambda>d. ptCode d = world) (periodData data p) = None"
  then show "periodTrade partners data p = ([], Inl TypeError)"
    by (rule periodTrade_no_world)
next
  assume "p \<in> set (getPeriods data)"
    and "find (\<lambda>d. ptCode d = world) (periodData data p) = None"
  then show "snd (updateChart data X Y) = Inl TypeError"
    by (rule updateChart_no_world)
next
  assume "find (\<lambda>d. ptCode d = world) newData = None"
  then show "unqueriedPartners newData = Inl TypeError"
    by (simp add: unqueriedPartners_def)
next
  assume a: "net 0 (URLSearchParams HScode (Array [world, canada]) (Str ''all'')) = Some response
      \<and> q \<in> set (getPeriods (uniqueData response))
      \<and> find (\<lambda>d. ptCode d = world) (periodData (uniqueData response) q) = None"
  then show "fst (addComtradeData net HScode) = Inl TypeError"
    and "drawn (snd (addComtradeData net HScode)) = []"
    and "loading (snd (addComtradeData net HScode))"
    using addComtradeData_first_chart_fails [of net HScode response q] by simp_all
next
  assume a: "net 0 (URLSearchParams HScode (Array [world, canada]) (Str ''all'')) = Some response
      \<and> updateChart (uniqueData response) (X_scale (getPeriods (uniqueData response)))
           (Y_scale (uniqueData response)) = (ws, Inr ch)
      \<and> net 1 (URLSearchParams HScode (Str ''all'')
           (Array (slice (- 1) None (map date2period (getPeriods (uniqueData response))))))
         = Some newData
      \<and> find (\<lambda>d. ptCode d = world) newData = None"
  then show "fst (addComtradeData net HScode) = Inl TypeError"
    and "length (requests (snd (addComtradeData net HScode))) = 2"
    and "loading (snd (addComtradeData net HScode))"
    using addComtradeData_ranking_fails [of net HScode response ws ch newData] by simp_all
qed

lemma uniqueData_sample_no_world: "uniqueData sample_no_world = sample_no_world"
  by (simp add: eval_unique sample_no_world_def)

lemma uniqueData_sample_residual: "uniqueData sample_residual = sample_residual"
  by (simp add: eval_unique sample_residual_def)

theorem missing_world_TypeError_witness:
  "find (\<lambda>d. ptCode d = world) (periodData sample_no_world (Some (year_start 2019))) = None
   \<and> Some (year_start 2019) \<in> set (getPeriods sample_no_world)
   \<and> periodTrade [''Canada''] sample_no_world (Some (year_start 2019)) = ([], Inl TypeError)
   \<and> snd (updateChart sample_no_world
        (X_scale (getPeriods sample_no_world)) (Y_scale sample_no_world)) = Inl TypeError
   \<and> unqueriedPartners [\<lparr>ptCode = 124, ptTitle = ''Canada'', period = 2020, TradeValue = 30\<rparr>]
     = Inl TypeError
   \<and> fst (addComtradeData sample_net_no_world ''0901'') = Inl TypeError
   \<and> drawn (snd (addComtradeData sample_net_no_world ''0901'')) = []
   \<and> fst (addComtradeData sample_net_ranking ''0901'') = Inl TypeError
   \<and> length (requests (snd (addComtradeData sample_net_ranking ''0901''))) = 2
   \<and> loading (snd (addComtradeData sample_net_ranking ''0901''))"
proof -
  let ?p = "Some (year_start 2019)"
  let ?canada = "\<lparr>ptCode = 124, ptTitle = ''Canada'', period = 2020, TradeValue = 30\<rparr>"
  have none: "find (\<lambda>d. ptCode d = world) (periodData sample_no_world ?p) = None"
    by (simp add: sample_no_world_def eval_periods world_def)
  have mem: "?p \<in> set (getPeriods sample_no_world)"
    by (simp add: getPeriods_sample_no_world)
  have none': "find (\<lambda>d. ptCode d = world) [?canada] = None"
    by (simp add: world_def)
  have first: "sample_net_no_world 0
      (URLSearchParams ''0901'' (Array [world, canada]) (Str ''all'')) = Some sample_no_world"
    by (simp add: sample_net_no_world_def)
  note a = missing_world_TypeError [where data = sample_no_world and p = ?p
      and partners = "[''Canada'']" and X = "X_scale (getPeriods sample_no_world)"
      and Y = "Y_scale sample_no_world" and newData = "[?canada]"
      and net = sample_net_no_world and HScode = "''0901''" and response = sample_no_world
      and q = ?p, unfolded uniqueData_sample_no_world]
  obtain ch where chart: "updateChart sample_residual (X_scale (getPeriods sample_residual))
      (Y_scale sample_residual) = ([], Inr ch)"
    using updateChart_sample_residual by blast
  have first': "sample_net_ranking 0
      (URLSearchParams ''0901'' (Array [world, canada]) (Str ''all'')) = Some sample_residual"
    and second: "sample_net_ranking 1 (URLSearchParams ''0901'' (Str ''all'')
      (Array (slice (- 1) None (map date2period (getPeriods sample_residual)))))
      = Some [?canada]"
    by (simp_all add: sample_net_ranking_def)
  note b = missing_world_TypeError [where newData = "[?canada]"
      and net = sample_net_ranking and HScode = "''0901''" and response = sample_residual
      and ws = "[]" and ch = ch, unfolded uniqueData_sample_residual]
  from a none mem none' first have
    "periodTrade [''Canada''] sample_no_world ?p = ([], Inl TypeError)"
    and "snd (updateChart sample_no_world
        (X_scale (getPeriods sample_no_world)) (Y_scale sample_no_world)) = Inl TypeError"
    and "unqueriedPartners [?canada] = Inl TypeError"
    and "fst (addComtradeData sample_net_no_world ''0901'') = Inl TypeError"
    and "drawn (snd (addComtradeData sample_net_no_world ''0901'')) = []"
    by simp_all
  moreover from b chart first' second none' have
    "fst (addComtradeData sample_net_ranking ''0901'') = Inl TypeError"
    and "length (requests (snd (addComtradeData sample_net_ranking ''0901''))) = 2"
    and "loading (snd (addComtradeData sample_net_ranking ''0901''))"
    by simp_all
  ultimately show ?thesis using none mem by simp
qed

end
